theory Spec2Isabelle
  imports Main "HOL-Library.Word" "HOL-Library.Sublist"
begin

section \<open>Byte buffers and the DataView reads\<close>

text \<open>
  The extractor of \<^verbatim>\<open>image_metadata_extractor.tsx\<close> works on a \<^verbatim>\<open>DataView\<close> over the
  bytes of one file. A DataView is modelled as the list of its bytes; \<^verbatim>\<open>byteLength\<close> is
  the length of the list. Offsets are the non-negative integers the program computes
  (sums of loop counters, constants and unsigned reads), so they are natural numbers.
  The values returned by the reads are JavaScript numbers holding unsigned integers
  below \<open>2 ^ 32\<close>; they are natural numbers too.

  A read that does not fit into the buffer throws \<^verbatim>\<open>RangeError\<close>. Every function that
  can throw returns a sum, with \<open>Inl\<close> for the exception.
\<close>

type_synonym byte = "8 word"

type_synonym DataView = "byte list"

datatype error = RangeError

type_synonym 'a result = "error + 'a"

definition getUint8 :: "DataView \<Rightarrow> nat \<Rightarrow> nat result" where
  "getUint8 dataView byteOffset =
     (if byteOffset + 1 \<le> length dataView
      then Inr (unat (dataView ! byteOffset))
      else Inl RangeError)"

text \<open>
  \<^verbatim>\<open>getUint16(byteOffset, littleEndian)\<close> and \<^verbatim>\<open>getUint32(byteOffset, littleEndian)\<close>;
  the call with one argument is the call with \<open>littleEndian = False\<close>.
\<close>

definition getUint16 :: "DataView \<Rightarrow> nat \<Rightarrow> bool \<Rightarrow> nat result" where
  "getUint16 dataView byteOffset littleEndian =
     (if byteOffset + 2 \<le> length dataView
      then (let b0 = unat (dataView ! byteOffset);
                b1 = unat (dataView ! (byteOffset + 1))
            in Inr (if littleEndian then b0 + 256 * b1 else 256 * b0 + b1))
      else Inl RangeError)"

definition getUint32 :: "DataView \<Rightarrow> nat \<Rightarrow> bool \<Rightarrow> nat result" where
  "getUint32 dataView byteOffset littleEndian =
     (if byteOffset + 4 \<le> length dataView
      then (let b0 = unat (dataView ! byteOffset);
                b1 = unat (dataView ! (byteOffset + 1));
                b2 = unat (dataView ! (byteOffset + 2));
                b3 = unat (dataView ! (byteOffset + 3))
            in Inr (if littleEndian
                    then b0 + 256 * b1 + 65536 * b2 + 16777216 * b3
                    else 16777216 * b0 + 65536 * b1 + 256 * b2 + b3))
      else Inl RangeError)"

text \<open>\<^verbatim>\<open>String.fromCharCode\<close> on a byte: the character with that code.\<close>

definition fromCharCode :: "nat \<Rightarrow> char" where
  "fromCharCode n = char_of n"

section \<open>Decoded values\<close>

text \<open>
  The values stored in the result objects are JavaScript numbers, strings, booleans and
  \<^verbatim>\<open>null\<close>. A number is either an unsigned integer that was read from the buffer
  (\<open>JNum\<close>) or the result of the one floating-point division of the program,
  \<^verbatim>\<open>numerator / denominator\<close> with a denominator other than zero (\<open>JQuot\<close>): the
  quotient is kept as the pair of its operands and stands for the double that
  JavaScript computes from them.
\<close>

datatype js_value =
    JNum nat
  | JQuot nat nat
  | JStr string
  | JBool bool
  | JNull

text \<open>A result object (\<^verbatim>\<open>Record<string, any>\<close>): a map from property names to values.\<close>

type_synonym js_record = "string \<rightharpoonup> js_value"

section \<open>Constants\<close>

definition EXIF_TAGS :: "nat \<Rightarrow> string option" where
  "EXIF_TAGS tag =
     (if tag = 0x010F then Some ''Make''
      else if tag = 0x0110 then Some ''Model''
      else if tag = 0x0112 then Some ''Orientation''
      else if tag = 0x011A then Some ''XResolution''
      else if tag = 0x011B then Some ''YResolution''
      else if tag = 0x0128 then Some ''ResolutionUnit''
      else if tag = 0x0132 then Some ''DateTime''
      else if tag = 0x013B then Some ''Artist''
      else if tag = 0x0213 then Some ''YCbCrPositioning''
      else if tag = 0x8769 then Some ''ExifIFDPointer''
      else if tag = 0x8825 then Some ''GPSIFDPointer''
      else None)"

definition TYPE_SIZES :: "nat \<Rightarrow> nat option" where
  "TYPE_SIZES type =
     (if type = 1 then Some 1 else if type = 2 then Some 1
      else if type = 3 then Some 2 else if type = 4 then Some 4
      else if type = 5 then Some 8 else if type = 6 then Some 1
      else if type = 7 then Some 1 else if type = 8 then Some 2
      else if type = 9 then Some 4 else if type = 10 then Some 8
      else if type = 11 then Some 4 else if type = 12 then Some 8
      else None)"

text \<open>\<^verbatim>\<open>TYPE_SIZES[type] || 1\<close>: a missing entry (and a zero one) gives 1.\<close>

definition getTypeSize :: "nat \<Rightarrow> nat" where
  "getTypeSize type =
     (case TYPE_SIZES type of
        None \<Rightarrow> 1
      | Some n \<Rightarrow> if n = 0 then 1 else n)"

section \<open>Reading one tag value\<close>

definition calculateActualOffset ::
  "DataView \<Rightarrow> nat \<Rightarrow> nat \<Rightarrow> nat \<Rightarrow> nat \<Rightarrow> bool \<Rightarrow> nat result" where
  "calculateActualOffset dataView valueOffset type count tiffOffset isBigEndian =
     (if getTypeSize type * count > 4
      then (case (if isBigEndian
                  then getUint32 dataView valueOffset False
                  else getUint32 dataView valueOffset True) of
              Inl e \<Rightarrow> Inl e
            | Inr pointer \<Rightarrow> Inr (tiffOffset + pointer))
      else Inr valueOffset)"

definition readUint16Value :: "DataView \<Rightarrow> nat \<Rightarrow> bool \<Rightarrow> nat result" where
  "readUint16Value dataView offset isBigEndian =
     (if isBigEndian
      then getUint16 dataView offset False
      else getUint16 dataView offset True)"

definition readUint32Value :: "DataView \<Rightarrow> nat \<Rightarrow> bool \<Rightarrow> nat result" where
  "readUint32Value dataView offset isBigEndian =
     (if isBigEndian
      then getUint32 dataView offset False
      else getUint32 dataView offset True)"

text \<open>
  The loop of \<^verbatim>\<open>readAsciiString\<close>:
  \<^verbatim>\<open>for (let i = 0; i < Math.min(count - 1, 100); i++) str += ...\<close>.
  The bound \<open>count - 1\<close> is \<open>-1\<close> for a count of zero, so it is an integer.
\<close>

function readAsciiString_loop ::
  "DataView \<Rightarrow> nat \<Rightarrow> int \<Rightarrow> nat \<Rightarrow> string \<Rightarrow> string result" where
  "readAsciiString_loop dataView offset bound i str =
     (if int i < bound
      then (case getUint8 dataView (offset + i) of
              Inl e \<Rightarrow> Inl e
            | Inr b \<Rightarrow> readAsciiString_loop dataView offset bound (Suc i)
                        (str @ [fromCharCode b]))
      else Inr str)"
  by pat_completeness auto
termination
  by (relation "measure (\<lambda>(dataView, offset, bound, i, str). nat (bound - int i))") auto

declare readAsciiString_loop.simps [simp del]

definition readAsciiString :: "DataView \<Rightarrow> nat \<Rightarrow> nat \<Rightarrow> string result" where
  "readAsciiString dataView offset count =
     readAsciiString_loop dataView offset (min (int count - 1) 100) 0 []"

definition readRationalValue :: "DataView \<Rightarrow> nat \<Rightarrow> bool \<Rightarrow> js_value result" where
  "readRationalValue dataView offset isBigEndian =
     (case readUint32Value dataView offset isBigEndian of
        Inl e \<Rightarrow> Inl e
      | Inr numerator \<Rightarrow>
          (case readUint32Value dataView (offset + 4) isBigEndian of
             Inl e \<Rightarrow> Inl e
           | Inr denominator \<Rightarrow>
               Inr (if denominator \<noteq> 0 then JQuot numerator denominator else JNum 0)))"

definition getTagValue ::
  "DataView \<Rightarrow> nat \<Rightarrow> nat \<Rightarrow> nat \<Rightarrow> nat \<Rightarrow> bool \<Rightarrow> js_value result" where
  "getTagValue dataView valueOffset type count tiffOffset isBigEndian =
     (case calculateActualOffset dataView valueOffset type count tiffOffset isBigEndian of
        Inl e \<Rightarrow> Inl e
      | Inr actualOffset \<Rightarrow>
          (if type = 1 then map_sum id JNum (getUint8 dataView actualOffset)
           else if type = 2 then map_sum id JStr (readAsciiString dataView actualOffset count)
           else if type = 3 then map_sum id JNum (readUint16Value dataView actualOffset isBigEndian)
           else if type = 4 then map_sum id JNum (readUint32Value dataView actualOffset isBigEndian)
           else if type = 5 then readRationalValue dataView actualOffset isBigEndian
           else Inr JNull))"

section \<open>Walking one IFD\<close>

text \<open>
  \<^verbatim>\<open>processIfdEntry\<close> reads the tag, the type and the count of one entry outside any
  handler, so an overrun there is thrown to the caller. The value is decoded inside
  \<^verbatim>\<open>try { ... } catch\<close>: an exception of \<^verbatim>\<open>getTagValue\<close> is swallowed and the record
  is left as it was. The record is mutated only by the assignment, so a thrown
  exception leaves it unchanged.
\<close>

definition processIfdEntry ::
  "DataView \<Rightarrow> nat \<Rightarrow> nat \<Rightarrow> bool \<Rightarrow> js_record \<Rightarrow> js_record result" where
  "processIfdEntry dataView tagOffset tiffOffset isBigEndian exifData =
     (case (if isBigEndian
            then getUint16 dataView tagOffset False
            else getUint16 dataView tagOffset True) of
        Inl e \<Rightarrow> Inl e
      | Inr tag \<Rightarrow>
     (case (if isBigEndian
            then getUint16 dataView (tagOffset + 2) False
            else getUint16 dataView (tagOffset + 2) True) of
        Inl e \<Rightarrow> Inl e
      | Inr type \<Rightarrow>
     (case (if isBigEndian
            then getUint32 dataView (tagOffset + 4) False
            else getUint32 dataView (tagOffset + 4) True) of
        Inl e \<Rightarrow> Inl e
      | Inr count \<Rightarrow>
     (case EXIF_TAGS tag of
        None \<Rightarrow> Inr exifData
      | Some name \<Rightarrow>
          (case getTagValue dataView (tagOffset + 8) type count tiffOffset isBigEndian of
             Inl e \<Rightarrow> Inr exifData
           | Inr v \<Rightarrow> Inr (exifData(name \<mapsto> v)))))))"

text \<open>
  The loop of \<^verbatim>\<open>parseIfd\<close>:
  \<^verbatim>\<open>for (let i = 0; i < Math.min(tagCount, 50); i++) processIfdEntry(..., ifdOffset + 2 + i * 12, ...)\<close>.
  Its outcome is the record as the loop left it, the exception that ended the loop if
  there was one (the record keeps what earlier entries stored: the caller's handler
  sees it), and, as a ghost component that no code reads, the list of the entry offsets
  that were handed to \<^verbatim>\<open>processIfdEntry\<close>, in order.
\<close>

type_synonym ifd_outcome = "js_record \<times> nat list \<times> error option"

function parseIfd_loop ::
  "DataView \<Rightarrow> nat \<Rightarrow> nat \<Rightarrow> bool \<Rightarrow> nat \<Rightarrow> nat \<Rightarrow> js_record \<Rightarrow> nat list \<Rightarrow> ifd_outcome" where
  "parseIfd_loop dataView ifdOffset tiffOffset isBigEndian bound i exifData entries =
     (if i < bound
      then (case processIfdEntry dataView (ifdOffset + 2 + i * 12) tiffOffset isBigEndian
                   exifData of
              Inl e \<Rightarrow> (exifData, entries @ [ifdOffset + 2 + i * 12], Some e)
            | Inr exifData' \<Rightarrow>
                parseIfd_loop dataView ifdOffset tiffOffset isBigEndian bound (Suc i)
                  exifData' (entries @ [ifdOffset + 2 + i * 12]))
      else (exifData, entries, None))"
  by pat_completeness auto
termination
  by (relation "measure (\<lambda>(dataView, ifdOffset, tiffOffset, isBigEndian, bound, i, exifData,
        entries). bound - i)") auto

declare parseIfd_loop.simps [simp del]

definition parseIfd ::
  "DataView \<Rightarrow> nat \<Rightarrow> nat \<Rightarrow> bool \<Rightarrow> js_record \<Rightarrow> ifd_outcome" where
  "parseIfd dataView ifdOffset tiffOffset isBigEndian exifData =
     (case (if isBigEndian
            then getUint16 dataView ifdOffset False
            else getUint16 dataView ifdOffset True) of
        Inl e \<Rightarrow> (exifData, [], Some e)
      | Inr tagCount \<Rightarrow>
          parseIfd_loop dataView ifdOffset tiffOffset isBigEndian (min tagCount 50) 0
            exifData [])"

text \<open>
  The handlers of the extraction functions: \<^verbatim>\<open>catch (error) { exifData.error = message }\<close>
  on the record as the \<^verbatim>\<open>try\<close> block left it.
\<close>

definition catch_error :: "string \<Rightarrow> js_record \<times> error option \<Rightarrow> js_record" where
  "catch_error message r =
     (case snd r of
        None \<Rightarrow> fst r
      | Some e \<Rightarrow> (fst r)(''error'' \<mapsto> JStr message))"

section \<open>The JPEG path, first copy of the component\<close>

text \<open>
  The two conditions of the marker scan, with the short-circuit of \<^verbatim>\<open>&&\<close>:
  \<^verbatim>\<open>getUint8(i) === 0xFF && getUint8(i + 1) === 0xE1\<close> and
  \<^verbatim>\<open>getUint32(h) === 0x45786966 && getUint16(h + 4) === 0x0000\<close>.
  Both copies of the component use these two expressions.
\<close>

definition isApp1Marker :: "DataView \<Rightarrow> nat \<Rightarrow> bool result" where
  "isApp1Marker dataView i =
     (case getUint8 dataView i of
        Inl e \<Rightarrow> Inl e
      | Inr b0 \<Rightarrow>
          if b0 = 0xFF
          then (case getUint8 dataView (i + 1) of
                  Inl e \<Rightarrow> Inl e
                | Inr b1 \<Rightarrow> Inr (b1 = 0xE1))
          else Inr False)"

definition isExifHeader :: "DataView \<Rightarrow> nat \<Rightarrow> bool result" where
  "isExifHeader dataView exifHeaderOffset =
     (case getUint32 dataView exifHeaderOffset False of
        Inl e \<Rightarrow> Inl e
      | Inr w \<Rightarrow>
          if w = 0x45786966
          then (case getUint16 dataView (exifHeaderOffset + 4) False of
                  Inl e \<Rightarrow> Inl e
                | Inr z \<Rightarrow> Inr (z = 0x0000))
          else Inr False)"

text \<open>
  \<^verbatim>\<open>findExifMarker\<close>: \<^verbatim>\<open>for (let i = 0; i < dataView.byteLength - 1; i++)\<close>, returning
  the header offset of the first marker whose header matches, or \<open>-1\<close>. A marker whose
  header does not match lets the loop go on.
\<close>

function findExifMarker_loop :: "DataView \<Rightarrow> nat \<Rightarrow> int result" where
  "findExifMarker_loop dataView i =
     (if int i < int (length dataView) - 1
      then (case isApp1Marker dataView i of
              Inl e \<Rightarrow> Inl e
            | Inr marker \<Rightarrow>
                if marker
                then (case isExifHeader dataView (i + 4) of
                        Inl e \<Rightarrow> Inl e
                      | Inr header \<Rightarrow>
                          if header then Inr (int (i + 4))
                          else findExifMarker_loop dataView (Suc i))
                else findExifMarker_loop dataView (Suc i))
      else Inr (- 1))"
  by pat_completeness auto
termination
  by (relation "measure (\<lambda>(dataView, i). length dataView - i)") auto

declare findExifMarker_loop.simps [simp del]

definition findExifMarker :: "DataView \<Rightarrow> int result" where
  "findExifMarker dataView = findExifMarker_loop dataView 0"

text \<open>
  The statements of \<^verbatim>\<open>extractExifData\<close> that follow a successful search (from
  \<^verbatim>\<open>const isBigEndian = ...\<close> to the call of \<^verbatim>\<open>parseIfd\<close>), as a function of the
  offset of the TIFF sub-stream.
\<close>

definition decodeExifTiff :: "DataView \<Rightarrow> nat \<Rightarrow> js_record \<times> error option" where
  "decodeExifTiff dataView tiffOffset =
     (case getUint16 dataView tiffOffset False of
        Inl e \<Rightarrow> (Map.empty, Some e)
      | Inr marker \<Rightarrow>
          (let isBigEndian = (marker = 0x4D4D);
               exifData = [''byteOrder'' \<mapsto>
                            JStr (if isBigEndian then ''Big Endian'' else ''Little Endian'')]
           in case (if isBigEndian
                    then getUint32 dataView (tiffOffset + 4) False
                    else getUint32 dataView (tiffOffset + 4) True) of
                Inl e \<Rightarrow> (exifData, Some e)
              | Inr pointer \<Rightarrow>
                  (case parseIfd dataView (tiffOffset + pointer) tiffOffset isBigEndian
                          exifData of
                     (exifData', entries, thrown) \<Rightarrow> (exifData', thrown))))"

definition extractExifData_try :: "DataView \<Rightarrow> js_record \<times> error option" where
  "extractExifData_try dataView =
     (case findExifMarker dataView of
        Inl e \<Rightarrow> (Map.empty, Some e)
      | Inr exifHeaderOffset \<Rightarrow>
          if exifHeaderOffset \<noteq> - 1
          then decodeExifTiff dataView (nat (exifHeaderOffset + 6))
          else (Map.empty, None))"

definition extractExifData :: "DataView \<Rightarrow> js_record" where
  "extractExifData dataView =
     catch_error ''Failed to parse EXIF data'' (extractExifData_try dataView)"

section \<open>The JPEG path, second copy of the component\<close>

text \<open>
  The source file holds the component twice. The second copy keeps the helpers inside
  the component: \<^verbatim>\<open>getTypeSize\<close> with a local table \<^verbatim>\<open>sizes\<close>, \<^verbatim>\<open>getTagValue\<close> with the
  reads written out in the \<^verbatim>\<open>switch\<close>, \<^verbatim>\<open>parseIfd\<close> with a local table \<^verbatim>\<open>exifTags\<close> and
  the entry processed in the loop body, and \<^verbatim>\<open>extractExifData\<close> with the marker scan in
  its own loop, which ends with \<^verbatim>\<open>break\<close> at the first marker. Their models carry the
  suffix 2.
\<close>

definition sizes :: "nat \<Rightarrow> nat option" where
  "sizes type =
     (if type = 1 then Some 1 else if type = 2 then Some 1
      else if type = 3 then Some 2 else if type = 4 then Some 4
      else if type = 5 then Some 8 else if type = 6 then Some 1
      else if type = 7 then Some 1 else if type = 8 then Some 2
      else if type = 9 then Some 4 else if type = 10 then Some 8
      else if type = 11 then Some 4 else if type = 12 then Some 8
      else None)"

definition getTypeSize2 :: "nat \<Rightarrow> nat" where
  "getTypeSize2 type =
     (case sizes type of
        None \<Rightarrow> 1
      | Some n \<Rightarrow> if n = 0 then 1 else n)"

function getTagValue2_ascii ::
  "DataView \<Rightarrow> nat \<Rightarrow> int \<Rightarrow> nat \<Rightarrow> string \<Rightarrow> string result" where
  "getTagValue2_ascii dataView actualOffset bound i str =
     (if int i < bound
      then (case getUint8 dataView (actualOffset + i) of
              Inl e \<Rightarrow> Inl e
            | Inr b \<Rightarrow> getTagValue2_ascii dataView actualOffset bound (Suc i)
                        (str @ [fromCharCode b]))
      else Inr str)"
  by pat_completeness auto
termination
  by (relation "measure (\<lambda>(dataView, actualOffset, bound, i, str). nat (bound - int i))") auto

declare getTagValue2_ascii.simps [simp del]

definition getTagValue2 ::
  "DataView \<Rightarrow> nat \<Rightarrow> nat \<Rightarrow> nat \<Rightarrow> nat \<Rightarrow> bool \<Rightarrow> js_value result" where
  "getTagValue2 dataView valueOffset type count tiffOffset isBigEndian =
     (case (if getTypeSize2 type * count > 4
            then (case (if isBigEndian
                        then getUint32 dataView valueOffset False
                        else getUint32 dataView valueOffset True) of
                    Inl e \<Rightarrow> Inl e
                  | Inr pointer \<Rightarrow> Inr (tiffOffset + pointer))
            else Inr valueOffset) of
        Inl e \<Rightarrow> Inl e
      | Inr actualOffset \<Rightarrow>
          (if type = 1 then map_sum id JNum (getUint8 dataView actualOffset)
           else if type = 2
             then map_sum id JStr
                    (getTagValue2_ascii dataView actualOffset (min (int count - 1) 100) 0 [])
           else if type = 3
             then map_sum id JNum
                    (if isBigEndian
                     then getUint16 dataView actualOffset False
                     else getUint16 dataView actualOffset True)
           else if type = 4
             then map_sum id JNum
                    (if isBigEndian
                     then getUint32 dataView actualOffset False
                     else getUint32 dataView actualOffset True)
           else if type = 5
             then (case (if isBigEndian
                         then getUint32 dataView actualOffset False
                         else getUint32 dataView actualOffset True) of
                     Inl e \<Rightarrow> Inl e
                   | Inr numerator \<Rightarrow>
                       (case (if isBigEndian
                              then getUint32 dataView (actualOffset + 4) False
                              else getUint32 dataView (actualOffset + 4) True) of
                          Inl e \<Rightarrow> Inl e
                        | Inr denominator \<Rightarrow>
                            Inr (if denominator \<noteq> 0 then JQuot numerator denominator
                                 else JNum 0)))
           else Inr JNull))"

definition exifTags :: "nat \<Rightarrow> string option" where
  "exifTags tag =
     (if tag = 0x010F then Some ''Make''
      else if tag = 0x0110 then Some ''Model''
      else if tag = 0x0112 then Some ''Orientation''
      else if tag = 0x011A then Some ''XResolution''
      else if tag = 0x011B then Some ''YResolution''
      else if tag = 0x0128 then Some ''ResolutionUnit''
      else if tag = 0x0132 then Some ''DateTime''
      else if tag = 0x013B then Some ''Artist''
      else if tag = 0x0213 then Some ''YCbCrPositioning''
      else if tag = 0x8769 then Some ''ExifIFDPointer''
      else if tag = 0x8825 then Some ''GPSIFDPointer''
      else None)"

text \<open>The body of the loop of the second \<^verbatim>\<open>parseIfd\<close>, for the entry at \<open>tagOffset\<close>.\<close>

definition parseIfd2_body ::
  "DataView \<Rightarrow> nat \<Rightarrow> nat \<Rightarrow> bool \<Rightarrow> js_record \<Rightarrow> js_record result" where
  "parseIfd2_body dataView tagOffset tiffOffset isBigEndian exifData =
     (case (if isBigEndian
            then getUint16 dataView tagOffset False
            else getUint16 dataView tagOffset True) of
        Inl e \<Rightarrow> Inl e
      | Inr tag \<Rightarrow>
     (case (if isBigEndian
            then getUint16 dataView (tagOffset + 2) False
            else getUint16 dataView (tagOffset + 2) True) of
        Inl e \<Rightarrow> Inl e
      | Inr type \<Rightarrow>
     (case (if isBigEndian
            then getUint32 dataView (tagOffset + 4) False
            else getUint32 dataView (tagOffset + 4) True) of
        Inl e \<Rightarrow> Inl e
      | Inr count \<Rightarrow>
     (case exifTags tag of
        None \<Rightarrow> Inr exifData
      | Some name \<Rightarrow>
          (case getTagValue2 dataView (tagOffset + 8) type count tiffOffset isBigEndian of
             Inl e \<Rightarrow> Inr exifData
           | Inr v \<Rightarrow> Inr (exifData(name \<mapsto> v)))))))"

function parseIfd2_loop ::
  "DataView \<Rightarrow> nat \<Rightarrow> nat \<Rightarrow> bool \<Rightarrow> nat \<Rightarrow> nat \<Rightarrow> js_record \<Rightarrow> nat list \<Rightarrow> ifd_outcome" where
  "parseIfd2_loop dataView ifdOffset tiffOffset isBigEndian bound i exifData entries =
     (if i < bound
      then (case parseIfd2_body dataView (ifdOffset + 2 + i * 12) tiffOffset isBigEndian
                   exifData of
              Inl e \<Rightarrow> (exifData, entries @ [ifdOffset + 2 + i * 12], Some e)
            | Inr exifData' \<Rightarrow>
                parseIfd2_loop dataView ifdOffset tiffOffset isBigEndian bound (Suc i)
                  exifData' (entries @ [ifdOffset + 2 + i * 12]))
      else (exifData, entries, None))"
  by pat_completeness auto
termination
  by (relation "measure (\<lambda>(dataView, ifdOffset, tiffOffset, isBigEndian, bound, i, exifData,
        entries). bound - i)") auto

declare parseIfd2_loop.simps [simp del]

definition parseIfd2 ::
  "DataView \<Rightarrow> nat \<Rightarrow> nat \<Rightarrow> bool \<Rightarrow> js_record \<Rightarrow> ifd_outcome" where
  "parseIfd2 dataView ifdOffset tiffOffset isBigEndian exifData =
     (case (if isBigEndian
            then getUint16 dataView ifdOffset False
            else getUint16 dataView ifdOffset True) of
        Inl e \<Rightarrow> (exifData, [], Some e)
      | Inr tagCount \<Rightarrow>
          parseIfd2_loop dataView ifdOffset tiffOffset isBigEndian (min tagCount 50) 0
            exifData [])"

text \<open>
  The statements of the second \<^verbatim>\<open>extractExifData\<close> inside
  \<^verbatim>\<open>if (getUint32(exifHeaderOffset) === ... )\<close>, as a function of the offset of the TIFF
  sub-stream.
\<close>

definition decodeExifTiff2 :: "DataView \<Rightarrow> nat \<Rightarrow> js_record \<times> error option" where
  "decodeExifTiff2 dataView tiffOffset =
     (case getUint16 dataView tiffOffset False of
        Inl e \<Rightarrow> (Map.empty, Some e)
      | Inr marker \<Rightarrow>
          (let isBigEndian = (marker = 0x4D4D);
               exifData = [''byteOrder'' \<mapsto>
                            JStr (if isBigEndian then ''Big Endian'' else ''Little Endian'')]
           in case (if isBigEndian
                    then getUint32 dataView (tiffOffset + 4) False
                    else getUint32 dataView (tiffOffset + 4) True) of
                Inl e \<Rightarrow> (exifData, Some e)
              | Inr pointer \<Rightarrow>
                  (case parseIfd2 dataView (tiffOffset + pointer) tiffOffset isBigEndian
                          exifData of
                     (exifData', entries, thrown) \<Rightarrow> (exifData', thrown))))"

text \<open>
  The loop of the second \<^verbatim>\<open>extractExifData\<close>. At the first marker it reads the segment
  length (the value is not used), tests the header, decodes if the header matches, and
  leaves the loop with \<^verbatim>\<open>break\<close> whether it matched or not.
\<close>

function extractExifData2_loop :: "DataView \<Rightarrow> nat \<Rightarrow> js_record \<times> error option" where
  "extractExifData2_loop dataView i =
     (if int i < int (length dataView) - 1
      then (case isApp1Marker dataView i of
              Inl e \<Rightarrow> (Map.empty, Some e)
            | Inr marker \<Rightarrow>
                if marker
                then (case getUint16 dataView (i + 2) False of
                        Inl e \<Rightarrow> (Map.empty, Some e)
                      | Inr segmentLength \<Rightarrow>
                          (case isExifHeader dataView (i + 4) of
                             Inl e \<Rightarrow> (Map.empty, Some e)
                           | Inr header \<Rightarrow>
                               if header then decodeExifTiff2 dataView (i + 4 + 6)
                               else (Map.empty, None)))
                else extractExifData2_loop dataView (Suc i))
      else (Map.empty, None))"
  by pat_completeness auto
termination
  by (relation "measure (\<lambda>(dataView, i). length dataView - i)") auto

declare extractExifData2_loop.simps [simp del]

definition extractExifData2 :: "DataView \<Rightarrow> js_record" where
  "extractExifData2 dataView =
     catch_error ''Failed to parse EXIF data'' (extractExifData2_loop dataView 0)"

section \<open>The bare TIFF path\<close>

definition extractTiffExifData_try :: "DataView \<Rightarrow> js_record \<times> error option" where
  "extractTiffExifData_try dataView =
     (case getUint16 dataView 0 False of
        Inl e \<Rightarrow> (Map.empty, Some e)
      | Inr byteOrder \<Rightarrow>
          (let isBigEndian = (byteOrder = 0x4D4D);
               exifData = [''byteOrder'' \<mapsto>
                 JStr (if isBigEndian then ''Big Endian (MM)'' else ''Little Endian (II)'')]
           in case (if isBigEndian
                    then getUint16 dataView 2 False
                    else getUint16 dataView 2 True) of
                Inl e \<Rightarrow> (exifData, Some e)
              | Inr magicNumber \<Rightarrow>
                  if magicNumber = 42
                  then (case (if isBigEndian
                              then getUint32 dataView 4 False
                              else getUint32 dataView 4 True) of
                          Inl e \<Rightarrow> (exifData(''format'' \<mapsto> JStr ''Valid TIFF''), Some e)
                        | Inr ifd0Offset \<Rightarrow>
                            (case parseIfd dataView ifd0Offset 0 isBigEndian
                                    (exifData(''format'' \<mapsto> JStr ''Valid TIFF'')) of
                               (exifData', entries, thrown) \<Rightarrow> (exifData', thrown)))
                  else (exifData(''error'' \<mapsto> JStr ''Invalid TIFF magic number''), None)))"

definition extractTiffExifData :: "DataView \<Rightarrow> js_record" where
  "extractTiffExifData dataView =
     catch_error ''Failed to parse TIFF EXIF data'' (extractTiffExifData_try dataView)"

section \<open>The XMP packet\<close>

text \<open>
  \<^verbatim>\<open>convertBufferToString\<close>:
  \<^verbatim>\<open>for (let i = 0; i < Math.min(byteLength, 65536); i++) fileString += String.fromCharCode(uint8Array[i])\<close>.
\<close>

function convertBufferToString_loop :: "DataView \<Rightarrow> nat \<Rightarrow> nat \<Rightarrow> string \<Rightarrow> string" where
  "convertBufferToString_loop uint8Array searchLength i fileString =
     (if i < searchLength
      then convertBufferToString_loop uint8Array searchLength (Suc i)
             (fileString @ [fromCharCode (unat (uint8Array ! i))])
      else fileString)"
  by pat_completeness auto
termination
  by (relation "measure (\<lambda>(uint8Array, searchLength, i, fileString). searchLength - i)") auto

declare convertBufferToString_loop.simps [simp del]

definition convertBufferToString :: "DataView \<Rightarrow> string" where
  "convertBufferToString arrayBuffer =
     convertBufferToString_loop arrayBuffer (min (length arrayBuffer) 65536) 0 []"

text \<open>
  The string methods of the language that the packet search uses.
  \<^verbatim>\<open>s.indexOf(t)\<close> is the least position at which \<open>t\<close> occurs in \<open>s\<close>, or \<open>-1\<close>.
  \<^verbatim>\<open>s.substring(a, b)\<close> clamps both arguments to \<open>0 .. length s\<close>, swaps them if the first
  is the larger, and returns the characters from the smaller position up to the larger.
\<close>

fun indexOf_from :: "string \<Rightarrow> string \<Rightarrow> nat \<Rightarrow> int" where
  "indexOf_from [] t i = (if t = [] then int i else - 1)"
| "indexOf_from (c # s) t i =
     (if prefix t (c # s) then int i else indexOf_from s t (Suc i))"

definition indexOf :: "string \<Rightarrow> string \<Rightarrow> int" where
  "indexOf s t = indexOf_from s t 0"

definition substring :: "string \<Rightarrow> int \<Rightarrow> int \<Rightarrow> string" where
  "substring s a b =
     (let finalStart = min (max a 0) (int (length s));
          finalEnd = min (max b 0) (int (length s));
          from = min finalStart finalEnd;
          to = max finalStart finalEnd
      in take (nat (to - from)) (drop (nat from) s))"

text \<open>
  \<^verbatim>\<open>extractXmpMetadata\<close> runs two regular expressions on the packet. They are parameters
  of the model: \<open>titleRegex s\<close> and \<open>creatorRegex s\<close> are the first capture group of the
  match of \<^verbatim>\<open>XMP_TITLE_REGEX\<close> and \<^verbatim>\<open>XMP_CREATOR_REGEX\<close> in \<open>s\<close>, if there is a match.
\<close>

definition extractXmpMetadata ::
  "(string \<Rightarrow> string option) \<Rightarrow> (string \<Rightarrow> string option) \<Rightarrow> string \<Rightarrow> js_record" where
  "extractXmpMetadata titleRegex creatorRegex xmpContent =
     (let xmpData = Map.empty;
          xmpData = (case titleRegex xmpContent of
                       None \<Rightarrow> xmpData
                     | Some title \<Rightarrow> xmpData(''title'' \<mapsto> JStr title))
      in (case creatorRegex xmpContent of
            None \<Rightarrow> xmpData
          | Some creator \<Rightarrow> xmpData(''creator'' \<mapsto> JStr creator)))"

text \<open>\<^verbatim>\<open>Object.assign(xmpData, extractedMetadata)\<close> is the map override \<open>++\<close>.\<close>

definition processXmpPacket ::
  "(string \<Rightarrow> string option) \<Rightarrow> (string \<Rightarrow> string option) \<Rightarrow> string \<Rightarrow> js_record" where
  "processXmpPacket titleRegex creatorRegex fileString =
     (let xmpStart = indexOf fileString ''<?xpacket begin='';
          xmpEnd = indexOf fileString ''<?xpacket end=''
      in if xmpStart \<noteq> - 1 \<and> xmpEnd \<noteq> - 1
         then (let xmpContent = substring fileString xmpStart (xmpEnd + 20);
                   truncatedContent = substring xmpContent 0 500
               in [''rawXMP'' \<mapsto> JStr (truncatedContent @ ''...''),
                   ''detected'' \<mapsto> JBool True]
                  ++ extractXmpMetadata titleRegex creatorRegex xmpContent)
         else [''detected'' \<mapsto> JBool False,
               ''note'' \<mapsto> JStr ''No XMP packet found in image''])"

text \<open>
  \<^verbatim>\<open>extractXmpData\<close>: the conversion and the packet search, copied into a fresh record.
  Its \<^verbatim>\<open>try\<close> block contains no operation that throws.
\<close>

definition extractXmpData ::
  "(string \<Rightarrow> string option) \<Rightarrow> (string \<Rightarrow> string option) \<Rightarrow> DataView \<Rightarrow> js_record" where
  "extractXmpData titleRegex creatorRegex arrayBuffer =
     Map.empty ++ processXmpPacket titleRegex creatorRegex (convertBufferToString arrayBuffer)"

section \<open>Notions used to state the properties\<close>

text \<open>
  These two definitions are not code of the extractor. They say, in terms of the bytes,
  what the specification calls an occurrence of the marker sequence \<open>0xFF 0xE1\<close> at
  position \<open>i\<close> and the literal signature \<open>Exif\0\0\<close>.
\<close>

definition app1_at :: "DataView \<Rightarrow> nat \<Rightarrow> bool" where
  "app1_at dv i = (i + 1 < length dv \<and> dv ! i = 0xFF \<and> dv ! (i + 1) = 0xE1)"

definition exif_signature :: "byte list" where
  "exif_signature = [0x45, 0x78, 0x69, 0x66, 0x00, 0x00]"

section \<open>Sample buffers\<close>

text \<open>
  Concrete files on which the theorems below are instantiated. Each is a buffer the
  extractor can receive: the bytes of a (possibly truncated) TIFF or JPEG file.
\<close>

text \<open>
  A big-endian TIFF header with IFD0 at offset 8, one declared entry (\<open>Make\<close>, type 7,
  count 5), cut off after the entry's count so that the value field is missing.
\<close>

definition truncated_tiff :: DataView where
  "truncated_tiff =
     [0x4D, 0x4D, 0x00, 0x2A, 0x00, 0x00, 0x00, 0x08,
      0x00, 0x01,
      0x01, 0x0F, 0x00, 0x07, 0x00, 0x00, 0x00, 0x05]"

text \<open>A big-endian TIFF header whose IFD0 declares two entries and ends there.\<close>

definition tiff_two_entries_declared :: DataView where
  "tiff_two_entries_declared =
     [0x4D, 0x4D, 0x00, 0x2A, 0x00, 0x00, 0x00, 0x08, 0x00, 0x02]"

text \<open>
  An IFD that declares \<open>0xFFFF\<close> entries, followed by 600 zero bytes: room for exactly
  fifty 12-byte entries, none of them a registered tag.
\<close>

definition ifd_adversarial_count :: DataView where
  "ifd_adversarial_count = [0xFF, 0xFF] @ replicate 600 0"

text \<open>
  A complete big-endian TIFF file: header, IFD0 at offset 8 with the single entry
  \<open>Orientation\<close> (tag \<open>0x0112\<close>, type 3, count 1, value 6), and a zero next-IFD pointer.
\<close>

definition tiff_orientation :: DataView where
  "tiff_orientation =
     [0x4D, 0x4D, 0x00, 0x2A, 0x00, 0x00, 0x00, 0x08,
      0x00, 0x01,
      0x01, 0x12, 0x00, 0x03, 0x00, 0x00, 0x00, 0x01, 0x00, 0x06, 0x00, 0x00,
      0x00, 0x00, 0x00, 0x00]"

text \<open>A big-endian TIFF header with the magic number 43.\<close>

definition tiff_bad_magic :: DataView where
  "tiff_bad_magic = [0x4D, 0x4D, 0x00, 0x2B, 0x00, 0x00, 0x00, 0x08]"

text \<open>
  A JPEG file: SOI, then an APP1 segment with the header \<open>Exif\0\0\<close> and a TIFF
  sub-stream whose byte-order marker is \<open>XX\<close> (\<open>0x5858\<close>), laid out little-endian with
  the single entry \<open>Orientation = 6\<close>.
\<close>

definition jpeg_unknown_byte_order :: DataView where
  "jpeg_unknown_byte_order =
     [0xFF, 0xD8,
      0xFF, 0xE1, 0x00, 0x22, 0x45, 0x78, 0x69, 0x66, 0x00, 0x00,
      0x58, 0x58, 0x2A, 0x00, 0x08, 0x00, 0x00, 0x00,
      0x01, 0x00,
      0x12, 0x01, 0x03, 0x00, 0x01, 0x00, 0x00, 0x00, 0x06, 0x00, 0x00, 0x00,
      0x00, 0x00, 0x00, 0x00]"

text \<open>The same JPEG file with a big-endian TIFF sub-stream (marker \<open>MM\<close>).\<close>

definition jpeg_big_endian :: DataView where
  "jpeg_big_endian =
     [0xFF, 0xD8,
      0xFF, 0xE1, 0x00, 0x22, 0x45, 0x78, 0x69, 0x66, 0x00, 0x00,
      0x4D, 0x4D, 0x00, 0x2A, 0x00, 0x00, 0x00, 0x08,
      0x00, 0x01,
      0x01, 0x12, 0x00, 0x03, 0x00, 0x00, 0x00, 0x01, 0x00, 0x06, 0x00, 0x00,
      0x00, 0x00, 0x00, 0x00]"

text \<open>A JPEG file cut off right after the marker of its first APP1 segment.\<close>

definition jpeg_cut_after_marker :: DataView where
  "jpeg_cut_after_marker = [0xFF, 0xD8, 0xFF, 0xE1]"

text \<open>
  A JPEG file with two APP1 segments: the first holds the four bytes \<open>http\<close> and no Exif
  header, the second holds \<open>Exif\0\0\<close> and a little-endian TIFF sub-stream with the single
  entry \<open>Orientation = 6\<close>.
\<close>

definition jpeg_two_app1 :: DataView where
  "jpeg_two_app1 =
     [0xFF, 0xD8,
      0xFF, 0xE1, 0x00, 0x06, 0x68, 0x74, 0x74, 0x70,
      0xFF, 0xE1, 0x00, 0x22, 0x45, 0x78, 0x69, 0x66, 0x00, 0x00,
      0x49, 0x49, 0x2A, 0x00, 0x08, 0x00, 0x00, 0x00,
      0x01, 0x00,
      0x12, 0x01, 0x03, 0x00, 0x01, 0x00, 0x00, 0x00, 0x06, 0x00, 0x00, 0x00,
      0x00, 0x00, 0x00, 0x00]"

text \<open>A JPEG file without any APP1 segment: SOI, a comment segment, EOI.\<close>

definition jpeg_without_app1 :: DataView where
  "jpeg_without_app1 = [0xFF, 0xD8, 0xFF, 0xFE, 0x00, 0x03, 0x41, 0xFF, 0xD9]"

text \<open>
  Two buffers of text: the bytes of \<^verbatim>\<open><?xpacket end=<?xpacket begin=\<close>, in which the end
  delimiter comes first, and the bytes of
  \<^verbatim>\<open><?xpacket begin=X?><x/><?xpacket end=w?>\<close>.
\<close>

definition xmp_reversed :: DataView where
  "xmp_reversed =
     [0x3C, 0x3F, 0x78, 0x70, 0x61, 0x63, 0x6B, 0x65, 0x74, 0x20, 0x65, 0x6E, 0x64, 0x3D,
      0x3C, 0x3F, 0x78, 0x70, 0x61, 0x63, 0x6B, 0x65, 0x74, 0x20, 0x62, 0x65, 0x67, 0x69,
      0x6E, 0x3D]"

definition xmp_packet :: DataView where
  "xmp_packet =
     [0x3C, 0x3F, 0x78, 0x70, 0x61, 0x63, 0x6B, 0x65, 0x74, 0x20, 0x62, 0x65, 0x67, 0x69,
      0x6E, 0x3D, 0x58, 0x3F, 0x3E, 0x3C, 0x78, 0x2F, 0x3E, 0x3C, 0x3F, 0x78, 0x70, 0x61,
      0x63, 0x6B, 0x65, 0x74, 0x20, 0x65, 0x6E, 0x64, 0x3D, 0x77, 0x3F, 0x3E]"

section \<open>The bounded ASCII read\<close>

text \<open>
  The loop of \<^verbatim>\<open>readAsciiString\<close> in closed form: it reads
  \<open>min (count - 1) 100\<close> bytes from the offset on, one character per byte, and throws
  exactly when those bytes do not all lie in the buffer.
\<close>

lemma fromCharCode_65: "fromCharCode 65 = CHR ''A''"
  by (simp add: fromCharCode_def char_of_def bit_iff_odd)

lemma readAsciiString_loop_eq:
  "readAsciiString_loop dv off bound i str =
     (if int i < bound \<and> length dv < off + nat bound then Inl RangeError
      else Inr (str @ map (\<lambda>b. fromCharCode (unat b)) (take (nat bound - i) (drop (off + i) dv))))"
proof (induction dv off bound i str rule: readAsciiString_loop.induct)
  case (1 dv off bound i str)
  show ?case
  proof (cases "int i < bound")
    case False
    then have "nat bound - i = 0" by simp
    with False show ?thesis by (subst readAsciiString_loop.simps) simp
  next
    case True
    show ?thesis
    proof (cases "off + i < length dv")
      case False
      with True have "length dv < off + nat bound" by linarith
      with True False show ?thesis
        by (subst readAsciiString_loop.simps) (simp add: getUint8_def)
    next
      case inr: True
      then have g: "getUint8 dv (off + i) = Inr (unat (dv ! (off + i)))"
        by (simp add: getUint8_def)
      from True have nb: "nat bound - i = Suc (nat bound - Suc i)" by linarith
      have d: "drop (off + i) dv = dv ! (off + i) # drop (off + Suc i) dv"
        using inr by (simp add: Cons_nth_drop_Suc)
      have ih: "readAsciiString_loop dv off bound (Suc i) (str @ [fromCharCode (unat (dv ! (off + i)))]) =
        (if int (Suc i) < bound \<and> length dv < off + nat bound then Inl RangeError
         else Inr ((str @ [fromCharCode (unat (dv ! (off + i)))]) @
            map (\<lambda>b. fromCharCode (unat b)) (take (nat bound - Suc i) (drop (off + Suc i) dv))))"
        using "1.IH"[OF True g] .
      show ?thesis
      proof (cases "length dv < off + nat bound")
        case lt: True
        with inr have "int (Suc i) < bound" by linarith
        with lt True g ih show ?thesis
          by (subst readAsciiString_loop.simps) simp
      next
        case ge: False
        with True g ih nb d show ?thesis
          by (subst readAsciiString_loop.simps) simp
      qed
    qed
  qed
qed

lemma readAsciiString_eq:
  "readAsciiString dv off count =
     (if 1 < count \<and> length dv < off + nat (min (int count - 1) 100) then Inl RangeError
      else Inr (map (\<lambda>b. fromCharCode (unat b))
                  (take (nat (min (int count - 1) 100)) (drop off dv))))"
  by (simp add: readAsciiString_def readAsciiString_loop_eq)

lemma readAsciiString_Inr:
  assumes "readAsciiString dv off count = Inr s"
  shows "length s = nat (min (int count - 1) 100)"
    and "s = map (\<lambda>b. fromCharCode (unat b)) (take (length s) (drop off dv))"
proof -
  let ?n = "nat (min (int count - 1) 100)"
  from assms have ok: "\<not> (1 < count \<and> length dv < off + ?n)"
    and s: "s = map (\<lambda>b. fromCharCode (unat b)) (take ?n (drop off dv))"
    by (auto simp: readAsciiString_eq split: if_splits)
  have "?n \<le> length dv - off"
  proof (cases "1 < count")
    case True with ok show ?thesis by linarith
  next
    case False then have "?n = 0" by simp
    then show ?thesis by simp
  qed
  then show l: "length s = ?n" using s by simp
  show "s = map (\<lambda>b. fromCharCode (unat b)) (take (length s) (drop off dv))"
    using s l by simp
qed

lemma getTagValue_ACM:
  "getTagValue [0x41, 0x43, 0x4D, 0] 0 2 4 0 False = Inr (JStr ''ACM'')"
  by (simp add: getTagValue_def calculateActualOffset_def getTypeSize_def TYPE_SIZES_def
        readAsciiString_eq fromCharCode_def char_of_def bit_iff_odd)

text \<open>
  Claim C2, as amended. An ASCII tag read (type code 2) that returns, returns a string
  of \<open>min (count - 1) 100\<close> characters (of none for a count of zero), so of at most
  100 characters whatever the declared count is; the string is the bytes at the
  effective offset, one character per byte.
\<close>

theorem ascii_tag_length_at_most_100:
  assumes "getTagValue dv valueOffset 2 count tiffOffset isBigEndian = Inr v"
  shows "\<exists>a s. calculateActualOffset dv valueOffset 2 count tiffOffset isBigEndian = Inr a
           \<and> readAsciiString dv a count = Inr s
           \<and> v = JStr s
           \<and> length s = nat (min (int count - 1) 100)
           \<and> length s \<le> 100
           \<and> s = map (\<lambda>b. fromCharCode (unat b)) (take (length s) (drop a dv))"
proof -
  from assms obtain a where a: "calculateActualOffset dv valueOffset 2 count tiffOffset isBigEndian = Inr a"
    by (cases "calculateActualOffset dv valueOffset 2 count tiffOffset isBigEndian")
       (simp_all add: getTagValue_def)
  with assms have "map_sum id JStr (readAsciiString dv a count) = Inr v"
    by (simp add: getTagValue_def)
  then obtain s where s: "readAsciiString dv a count = Inr s" and v: "v = JStr s"
    by (cases "readAsciiString dv a count") auto
  from readAsciiString_Inr[OF s] have l: "length s = nat (min (int count - 1) 100)"
    and m: "s = map (\<lambda>b. fromCharCode (unat b)) (take (length s) (drop a dv))" by simp_all
  from l have "length s \<le> 100" by linarith
  with a s v l m show ?thesis by blast
qed

theorem ascii_tag_length_at_most_100_witness:
  "getTagValue [0x41, 0x43, 0x4D, 0] 0 2 4 0 False = Inr (JStr ''ACM'')
   \<and> (\<exists>a s. calculateActualOffset [0x41, 0x43, 0x4D, 0] 0 2 4 0 False = Inr a
           \<and> readAsciiString [0x41, 0x43, 0x4D, 0] a 4 = Inr s
           \<and> JStr ''ACM'' = JStr s
           \<and> length s = nat (min (int 4 - 1) 100)
           \<and> length s \<le> 100
           \<and> s = map (\<lambda>b. fromCharCode (unat b)) (take (length s) (drop a ([0x41, 0x43, 0x4D, 0] :: DataView))))"
proof (rule conjI)
  show "getTagValue [0x41, 0x43, 0x4D, 0] 0 2 4 0 False = Inr (JStr ''ACM'')"
    by (rule getTagValue_ACM)
  then show "\<exists>a s. calculateActualOffset [0x41, 0x43, 0x4D, 0] 0 2 4 0 False = Inr a
           \<and> readAsciiString [0x41, 0x43, 0x4D, 0] a 4 = Inr s
           \<and> JStr ''ACM'' = JStr s
           \<and> length s = nat (min (int 4 - 1) 100)
           \<and> length s \<le> 100
           \<and> s = map (\<lambda>b. fromCharCode (unat b)) (take (length s) (drop a ([0x41, 0x43, 0x4D, 0] :: DataView)))"
    by (rule ascii_tag_length_at_most_100)
qed

text \<open>
  Claim C2 as stated gives 99 as the bound. A declared count of 101 on a buffer that
  holds a pointer to 100 bytes \<open>0x41\<close> returns 100 characters.
\<close>

theorem ascii_tag_100_characters_counterexample:
  "getTagValue ([0, 0, 0, 4] @ replicate 100 0x41) 0 2 101 0 True
     = Inr (JStr (replicate 100 (CHR ''A'')))
   \<and> \<not> length (replicate 100 (CHR ''A'')) \<le> 99"
  by (simp add: getTagValue_def calculateActualOffset_def getTypeSize_def TYPE_SIZES_def
        getUint32_def readAsciiString_eq fromCharCode_65)

section \<open>The rational decoder\<close>

text \<open>
  Claim C3. Where the rational decoder reads its two 32-bit values, numerator at the
  offset and denominator four bytes later, with the endianness of the buffer, the
  result is the number 0 if the denominator is 0 and the quotient
  \<^verbatim>\<open>numerator / denominator\<close> otherwise; in both cases it is a value, not an exception.
\<close>

theorem rational_guarded_division:
  assumes "readUint32Value dv offset isBigEndian = Inr numerator"
    and "readUint32Value dv (offset + 4) isBigEndian = Inr denominator"
  shows "readRationalValue dv offset isBigEndian =
           Inr (if denominator = 0 then JNum 0 else JQuot numerator denominator)"
  using assms by (simp add: readRationalValue_def)

theorem rational_guarded_division_witness:
  "readUint32Value [0, 0, 0, 7, 0, 0, 0, 0] 0 True = Inr 7
   \<and> readUint32Value [0, 0, 0, 7, 0, 0, 0, 0] (0 + 4) True = Inr 0
   \<and> readRationalValue [0, 0, 0, 7, 0, 0, 0, 0] 0 True = Inr (JNum 0)
   \<and> readUint32Value [72, 0, 0, 0, 3, 0, 0, 0] 0 False = Inr 72
   \<and> readUint32Value [72, 0, 0, 0, 3, 0, 0, 0] (0 + 4) False = Inr 3
   \<and> readRationalValue [72, 0, 0, 0, 3, 0, 0, 0] 0 False = Inr (JQuot 72 3)"
proof -
  have n1: "readUint32Value [0, 0, 0, 7, 0, 0, 0, 0] 0 True = Inr 7"
    by (simp add: readUint32Value_def getUint32_def)
  have d1: "readUint32Value [0, 0, 0, 7, 0, 0, 0, 0] (0 + 4) True = Inr 0"
    by (simp add: readUint32Value_def getUint32_def)
  have n2: "readUint32Value [72, 0, 0, 0, 3, 0, 0, 0] 0 False = Inr 72"
    by (simp add: readUint32Value_def getUint32_def)
  have d2: "readUint32Value [72, 0, 0, 0, 3, 0, 0, 0] (0 + 4) False = Inr 3"
    by (simp add: readUint32Value_def getUint32_def)
  show ?thesis
    using n1 d1 n2 d2 rational_guarded_division [OF n1 d1] rational_guarded_division [OF n2 d2]
    by simp
qed

text \<open>The decoder of type code 5 is this function at the effective offset.\<close>

lemma getTagValue_rational:
  assumes "calculateActualOffset dv valueOffset 5 count tiffOffset isBigEndian = Inr a"
  shows "getTagValue dv valueOffset 5 count tiffOffset isBigEndian = readRationalValue dv a isBigEndian"
  using assms by (simp add: getTagValue_def)

section \<open>The effective payload location\<close>

text \<open>
  The size table in closed form, and what it means for the count: a payload fits into
  the four bytes of the value field up to four items of size 1, two of size 2, one of
  size 4 and none of size 8.
\<close>

lemma getTypeSize_table:
  "getTypeSize type =
     (if type \<in> {3, 8} then 2 else if type \<in> {4, 9, 11} then 4
      else if type \<in> {5, 10, 12} then 8 else 1)"
  by (simp add: getTypeSize_def TYPE_SIZES_def)

lemma inline_threshold:
  "(getTypeSize type * count \<le> 4) =
     (count \<le> (if type \<in> {3, 8} then 2 else if type \<in> {4, 9, 11} then 1
               else if type \<in> {5, 10, 12} then 0 else 4))"
  unfolding getTypeSize_table by (simp split: if_splits) arith

text \<open>
  Claim C4. The size of a type is 2 for the codes 3 and 8, 4 for the codes 4, 9 and 11,
  8 for the codes 5, 10 and 12, and 1 for every other code, in the table or not. For
  the entry at \<open>tagOffset\<close>, whose value field is at \<open>tagOffset + 8\<close>: if
  \<open>typeSize(type) * count \<le> 4\<close>, that is, if the count is at most 4, 2, 1 or 0 for the
  sizes 1, 2, 4 and 8, the payload is at the value field itself, whatever the buffer
  holds; otherwise it is at \<open>tiffOffset\<close> plus the 32-bit value read at the value field
  with the endianness of the buffer (and if that read overruns the buffer, its
  exception is the result).
\<close>

theorem payload_location:
  "getTypeSize type =
     (if type \<in> {3, 8} then 2 else if type \<in> {4, 9, 11} then 4
      else if type \<in> {5, 10, 12} then 8 else 1)
   \<and> (getTypeSize type * count \<le> 4) =
       (count \<le> (if type \<in> {3, 8} then 2 else if type \<in> {4, 9, 11} then 1
                 else if type \<in> {5, 10, 12} then 0 else 4))
   \<and> (getTypeSize type * count \<le> 4 \<longrightarrow>
      calculateActualOffset dv (tagOffset + 8) type count tiffOffset isBigEndian
        = Inr (tagOffset + 8))
   \<and> (4 < getTypeSize type * count \<longrightarrow>
        readUint32Value dv (tagOffset + 8) isBigEndian = Inr pointer \<longrightarrow>
        calculateActualOffset dv (tagOffset + 8) type count tiffOffset isBigEndian
          = Inr (tiffOffset + pointer))
   \<and> (4 < getTypeSize type * count \<longrightarrow>
        readUint32Value dv (tagOffset + 8) isBigEndian = Inl e \<longrightarrow>
        calculateActualOffset dv (tagOffset + 8) type count tiffOffset isBigEndian = Inl e)"
proof (intro conjI)
  show "getTypeSize type =
     (if type \<in> {3, 8} then 2 else if type \<in> {4, 9, 11} then 4
      else if type \<in> {5, 10, 12} then 8 else 1)"
    by (rule getTypeSize_table)
  show "(getTypeSize type * count \<le> 4) =
       (count \<le> (if type \<in> {3, 8} then 2 else if type \<in> {4, 9, 11} then 1
                 else if type \<in> {5, 10, 12} then 0 else 4))"
    by (rule inline_threshold)
qed (auto simp: calculateActualOffset_def readUint32Value_def)


theorem payload_location_witness:
  "getTypeSize 3 = 2
   \<and> getTypeSize 3 * 2 \<le> 4
   \<and> calculateActualOffset [] (10 + 8) 3 2 6 False = Inr (10 + 8)
   \<and> 4 < getTypeSize 3 * 3
   \<and> readUint32Value (replicate 8 0 @ [26, 0, 0, 0]) (0 + 8) False = Inr 26
   \<and> calculateActualOffset (replicate 8 0 @ [26, 0, 0, 0]) (0 + 8) 3 3 6 False = Inr (6 + 26)
   \<and> getTypeSize 4 * 1 \<le> 4
   \<and> calculateActualOffset [] (10 + 8) 4 1 6 True = Inr (10 + 8)
   \<and> 4 < getTypeSize 5 * 1
   \<and> calculateActualOffset (replicate 8 0 @ [26, 0, 0, 0]) (0 + 8) 5 1 6 False = Inr (6 + 26)
   \<and> readUint32Value [] (0 + 8) False = Inl RangeError
   \<and> calculateActualOffset [] (0 + 8) 5 1 6 False = Inl RangeError"
proof -
  note t32 = payload_location [of 3 2 "[]" 10 6 False]
  note t33 = payload_location [of 3 3 "replicate 8 0 @ [26, 0, 0, 0]" 0 6 False 26]
  note t41 = payload_location [of 4 1 "[]" 10 6 True]
  note t51 = payload_location [of 5 1 "replicate 8 0 @ [26, 0, 0, 0]" 0 6 False 26]
  note t5e = payload_location [of 5 1 "[]" 0 6 False _ RangeError]
  from t32 have z: "getTypeSize 3 = 2" by simp
  from t32 have s32: "getTypeSize 3 * 2 \<le> 4" by simp
  from t33 have s33: "4 < getTypeSize 3 * 3" by simp
  from t41 have s41: "getTypeSize 4 * 1 \<le> 4" by simp
  from t51 have s51: "4 < getTypeSize 5 * 1" by simp
  have p: "readUint32Value (replicate 8 0 @ [26, 0, 0, 0]) (0 + 8) False = Inr 26"
    by (simp add: readUint32Value_def getUint32_def nth_append)
  have q: "readUint32Value [] (0 + 8) False = Inl RangeError"
    by (simp add: readUint32Value_def getUint32_def)
  from t32 s32 have a: "calculateActualOffset [] (10 + 8) 3 2 6 False = Inr (10 + 8)" by blast
  from t33 s33 p
  have b: "calculateActualOffset (replicate 8 0 @ [26, 0, 0, 0]) (0 + 8) 3 3 6 False = Inr (6 + 26)"
    by blast
  from t41 s41 have c: "calculateActualOffset [] (10 + 8) 4 1 6 True = Inr (10 + 8)" by blast
  from t51 s51 p
  have d: "calculateActualOffset (replicate 8 0 @ [26, 0, 0, 0]) (0 + 8) 5 1 6 False = Inr (6 + 26)"
    by blast
  from t5e s51 q have e: "calculateActualOffset [] (0 + 8) 5 1 6 False = Inl RangeError" by blast
  from z s32 s33 s41 s51 p q a b c d e show ?thesis by blast
qed

section \<open>Type codes without a decoder\<close>

text \<open>
  Claim C5, as amended. \<^verbatim>\<open>getTagValue\<close> computes the effective offset before it looks
  at the type code. For a type code outside \<open>{1, 2, 3, 4, 5}\<close> it returns \<^verbatim>\<open>null\<close>, unless
  the payload is larger than four bytes and the pointer at the value offset does not
  lie within the buffer: then it throws \<^verbatim>\<open>RangeError\<close>.
\<close>

theorem unsupported_type_null_or_overrun:
  assumes "type \<notin> {1, 2, 3, 4, 5}"
  shows "getTagValue dv valueOffset type count tiffOffset isBigEndian =
           (if 4 < getTypeSize type * count \<and> length dv < valueOffset + 4
            then Inl RangeError else Inr JNull)"
  using assms by (auto simp: getTagValue_def calculateActualOffset_def getUint32_def Let_def)

theorem unsupported_type_null_or_overrun_witness:
  "(7::nat) \<notin> {1, 2, 3, 4, 5}
   \<and> getTagValue [1, 2, 3, 4] 0 7 4 0 True = Inr JNull
   \<and> getTagValue [0, 0, 0, 9] 0 7 5 0 True = Inr JNull
   \<and> getTagValue [0, 0, 0] 0 7 5 0 True = Inl RangeError"
proof -
  have h: "(7::nat) \<notin> {1, 2, 3, 4, 5}" by simp
  show ?thesis
    using h unsupported_type_null_or_overrun [OF h, of "[1, 2, 3, 4]" 0 4 0 True]
      unsupported_type_null_or_overrun [OF h, of "[0, 0, 0, 9]" 0 5 0 True]
      unsupported_type_null_or_overrun [OF h, of "[0, 0, 0]" 0 5 0 True]
    by (simp add: getTypeSize_def TYPE_SIZES_def)
qed

text \<open>
  Claim C5 as stated says that the decoder never raises. On the truncated file the
  entry has type 7 and count 5, the pointer field at offset 18 is missing, and the
  decoder throws; \<^verbatim>\<open>processIfdEntry\<close> catches the exception and stores nothing.
\<close>

theorem unsupported_type_raises_counterexample:
  "(7::nat) \<notin> {1, 2, 3, 4, 5}
   \<and> getTagValue truncated_tiff 18 7 5 0 True = Inl RangeError
   \<and> processIfdEntry truncated_tiff 10 0 True Map.empty = Inr Map.empty"
  by (simp add: truncated_tiff_def getTagValue_def calculateActualOffset_def getTypeSize_def
        TYPE_SIZES_def getUint32_def getUint16_def processIfdEntry_def EXIF_TAGS_def)

section \<open>The bounded walk over the entries\<close>

text \<open>
  An entry is read without a fault exactly when its tag, type and count (eight bytes)
  lie within the buffer; a fault while decoding the value is caught in the entry.
\<close>

lemma processIfdEntry_overrun:
  "length dv < tagOffset + 8 \<Longrightarrow>
   processIfdEntry dv tagOffset tiffOffset isBigEndian exifData = Inl RangeError"
  by (auto simp: processIfdEntry_def getUint16_def getUint32_def Let_def split: sum.splits)

lemma processIfdEntry_in_range:
  "tagOffset + 8 \<le> length dv \<Longrightarrow>
   \<exists>exifData'. processIfdEntry dv tagOffset tiffOffset isBigEndian exifData = Inr exifData'"
  by (auto simp: processIfdEntry_def getUint16_def getUint32_def Let_def
      split: sum.splits option.splits)

lemma parseIfd_loop_entries:
  assumes "parseIfd_loop dv ifdOffset tiffOffset isBigEndian bound i exifData entries
             = (exifData', entries', thrown)"
    and "i \<le> bound"
  shows "\<exists>m. i \<le> m \<and> m \<le> bound
           \<and> entries' = entries @ map (\<lambda>k. ifdOffset + 2 + k * 12) [i..<m]
           \<and> (thrown = None \<longrightarrow> m = bound)"
  using assms
proof (induction dv ifdOffset tiffOffset isBigEndian bound i exifData entries
       rule: parseIfd_loop.induct)
  case (1 dv ifdOffset tiffOffset isBigEndian bound i exifData entries)
  show ?case
  proof (cases "i < bound")
    case False
    with "1.prems" have "i = bound" "entries' = entries" "thrown = None"
      by (simp_all add: parseIfd_loop.simps [of dv ifdOffset tiffOffset isBigEndian bound i])
    then show ?thesis by (intro exI [of _ i]) simp
  next
    case True
    show ?thesis
    proof (cases "processIfdEntry dv (ifdOffset + 2 + i * 12) tiffOffset isBigEndian exifData")
      case (Inl e)
      with True "1.prems" have "entries' = entries @ [ifdOffset + 2 + i * 12]" "thrown = Some e"
        by (simp_all add: parseIfd_loop.simps [of dv ifdOffset tiffOffset isBigEndian bound i])
      with True show ?thesis
        by (intro exI [of _ "Suc i"]) simp
    next
      case (Inr ex)
      with True "1.prems" have
        "parseIfd_loop dv ifdOffset tiffOffset isBigEndian bound (Suc i) ex
           (entries @ [ifdOffset + 2 + i * 12]) = (exifData', entries', thrown)"
        by (simp add: parseIfd_loop.simps [of dv ifdOffset tiffOffset isBigEndian bound i])
      from "1.IH" [OF True Inr this] True obtain m where
        m: "Suc i \<le> m" "m \<le> bound"
        "entries' = (entries @ [ifdOffset + 2 + i * 12]) @ map (\<lambda>k. ifdOffset + 2 + k * 12) [Suc i..<m]"
        "thrown = None \<longrightarrow> m = bound"
        by auto
      from m(1) have "[i..<m] = i # [Suc i..<m]" by (simp add: upt_conv_Cons)
      with m show ?thesis by (intro exI [of _ m]) simp
    qed
  qed
qed

lemma parseIfd_loop_in_range:
  assumes "ifdOffset + 2 + 12 * bound \<le> length dv"
    and "parseIfd_loop dv ifdOffset tiffOffset isBigEndian bound i exifData entries
             = (exifData', entries', thrown)"
  shows "thrown = None"
  using assms
proof (induction dv ifdOffset tiffOffset isBigEndian bound i exifData entries
       rule: parseIfd_loop.induct)
  case (1 dv ifdOffset tiffOffset isBigEndian bound i exifData entries)
  show ?case
  proof (cases "i < bound")
    case False
    with "1.prems" show ?thesis
      by (simp add: parseIfd_loop.simps [of dv ifdOffset tiffOffset isBigEndian bound i])
  next
    case True
    with "1.prems"(1) have "ifdOffset + 2 + i * 12 + 8 \<le> length dv" by linarith
    from processIfdEntry_in_range [OF this] obtain ex where
      ex: "processIfdEntry dv (ifdOffset + 2 + i * 12) tiffOffset isBigEndian exifData = Inr ex"
      by blast
    with True "1.prems" have
      "parseIfd_loop dv ifdOffset tiffOffset isBigEndian bound (Suc i) ex
         (entries @ [ifdOffset + 2 + i * 12]) = (exifData', entries', thrown)"
      by (simp add: parseIfd_loop.simps [of dv ifdOffset tiffOffset isBigEndian bound i])
    from "1.IH" [OF True ex "1.prems"(1) this] show ?thesis .
  qed
qed

text \<open>
  Claim C1, as amended. Where the 16-bit count can be read at the IFD offset, the
  walker hands at most \<open>min declaredEntryCount 50\<close> entries to the entry processor,
  never more than 50; entry \<open>i\<close> starts at \<open>ifdOffset + 2 + 12 * i\<close>. The number is
  exactly \<open>min declaredEntryCount 50\<close> when the walk is not ended by an exception, which
  is the case when all those 12-byte entries lie within the buffer.
\<close>

theorem ifd_entries_bounded:
  assumes "readUint16Value dv ifdOffset isBigEndian = Inr declaredEntryCount"
    and "parseIfd dv ifdOffset tiffOffset isBigEndian exifData = (exifData', entries, thrown)"
  shows "length entries \<le> min declaredEntryCount 50
       \<and> length entries \<le> 50
       \<and> entries = map (\<lambda>i. ifdOffset + 2 + i * 12) [0..<length entries]
       \<and> (thrown = None \<longrightarrow> length entries = min declaredEntryCount 50)
       \<and> (ifdOffset + 2 + 12 * min declaredEntryCount 50 \<le> length dv \<longrightarrow>
            thrown = None \<and> length entries = min declaredEntryCount 50)"
proof -
  let ?b = "min declaredEntryCount 50"
  from assms have loop:
    "parseIfd_loop dv ifdOffset tiffOffset isBigEndian ?b 0 exifData []
       = (exifData', entries, thrown)"
    by (simp add: parseIfd_def readUint16Value_def split: if_splits)
  from parseIfd_loop_entries [OF loop] obtain m where
    m: "m \<le> ?b" "entries = map (\<lambda>k. ifdOffset + 2 + k * 12) [0..<m]"
       "thrown = None \<longrightarrow> m = ?b"
    by auto
  from m(2) have l: "length entries = m" by simp
  have r: "ifdOffset + 2 + 12 * ?b \<le> length dv \<longrightarrow> thrown = None"
    using parseIfd_loop_in_range [OF _ loop] by blast
  from m l r show ?thesis by auto
qed

lemma ifd_adversarial_count_read:
  "readUint16Value ifd_adversarial_count 0 True = Inr 65535"
  by (simp add: readUint16Value_def getUint16_def ifd_adversarial_count_def)

theorem ifd_entries_bounded_witness:
  "readUint16Value ifd_adversarial_count 0 True = Inr 65535
   \<and> length (fst (snd (parseIfd ifd_adversarial_count 0 0 True Map.empty))) = 50
   \<and> snd (snd (parseIfd ifd_adversarial_count 0 0 True Map.empty)) = None
   \<and> fst (snd (parseIfd ifd_adversarial_count 0 0 True Map.empty))
       = map (\<lambda>i. 0 + 2 + i * 12) [0..<50]"
proof -
  obtain exifData' entries thrown where
    run: "parseIfd ifd_adversarial_count 0 0 True Map.empty = (exifData', entries, thrown)"
    by (cases "parseIfd ifd_adversarial_count 0 0 True Map.empty") auto
  have room: "0 + 2 + 12 * min 65535 50 \<le> length ifd_adversarial_count"
    by (simp add: ifd_adversarial_count_def)
  note all = ifd_entries_bounded [OF ifd_adversarial_count_read run]
  from all room have n: "thrown = None" by simp
  from all room have l: "length entries = 50" by simp
  from all have e: "entries = map (\<lambda>i. 0 + 2 + i * 12) [0..<length entries]" by blast
  note e50 = e [unfolded l]
  show ?thesis
  proof (intro conjI)
    show "readUint16Value ifd_adversarial_count 0 True = Inr 65535"
      by (rule ifd_adversarial_count_read)
    show "length (fst (snd (parseIfd ifd_adversarial_count 0 0 True Map.empty))) = 50"
      using run l by simp
    show "snd (snd (parseIfd ifd_adversarial_count 0 0 True Map.empty)) = None"
      using run n by simp
    show "fst (snd (parseIfd ifd_adversarial_count 0 0 True Map.empty))
            = map (\<lambda>i. 0 + 2 + i * 12) [0..<50]"
      unfolding run using e50 by simp
  qed
qed

lemma parseIfd_truncated:
  "parseIfd tiff_two_entries_declared 8 0 True Map.empty = (Map.empty, [10], Some RangeError)"
  by (simp add: parseIfd_def tiff_two_entries_declared_def getUint16_def
      parseIfd_loop.simps [of _ _ _ _ _ 0] processIfdEntry_def)

text \<open>
  Claim C1 as stated says that exactly \<open>min declaredEntryCount 50\<close> entries are
  processed for every buffer. On the file that declares two entries and ends after the
  count, the walk is ended by the first entry's read: one entry was begun, none was
  completed.
\<close>

theorem ifd_entries_exact_counterexample:
  "readUint16Value tiff_two_entries_declared 8 True = Inr 2
   \<and> parseIfd tiff_two_entries_declared 8 0 True Map.empty = (Map.empty, [10], Some RangeError)
   \<and> length [10::nat] \<noteq> min 2 50"
  by (simp add: parseIfd_truncated)
     (simp add: readUint16Value_def getUint16_def tiff_two_entries_declared_def)

section \<open>The two copies of the IFD walker agree\<close>

text \<open>
  The helpers of the second copy compute what the helpers of the first copy compute:
  the tables are equal and the inlined reads are the same expressions.
\<close>

lemma getTypeSize2_eq: "getTypeSize2 type = getTypeSize type"
  by (simp add: getTypeSize2_def getTypeSize_def sizes_def TYPE_SIZES_def)

lemma getTagValue2_ascii_eq:
  "getTagValue2_ascii dv off bound i str = readAsciiString_loop dv off bound i str"
proof (induction dv off bound i str rule: readAsciiString_loop.induct)
  case (1 dv off bound i str)
  show ?case
  proof (cases "int i < bound")
    case False
    then show ?thesis
      by (simp add: getTagValue2_ascii.simps [of dv off bound i]
          readAsciiString_loop.simps [of dv off bound i])
  next
    case True
    show ?thesis
    proof (cases "getUint8 dv (off + i)")
      case (Inl e)
      with True show ?thesis
        by (simp add: getTagValue2_ascii.simps [of dv off bound i]
            readAsciiString_loop.simps [of dv off bound i])
    next
      case (Inr b)
      from "1.IH" [OF True Inr] True Inr show ?thesis
        by (simp add: getTagValue2_ascii.simps [of dv off bound i]
            readAsciiString_loop.simps [of dv off bound i])
    qed
  qed
qed

lemma getTagValue2_eq:
  "getTagValue2 dv valueOffset type count tiffOffset isBigEndian
     = getTagValue dv valueOffset type count tiffOffset isBigEndian"
  by (simp add: getTagValue2_def getTagValue_def calculateActualOffset_def getTypeSize2_eq
      getTagValue2_ascii_eq readAsciiString_def readUint16Value_def readUint32Value_def
      readRationalValue_def cong: sum.case_cong)

lemma exifTags_eq: "exifTags tag = EXIF_TAGS tag"
  by (simp add: exifTags_def EXIF_TAGS_def)

lemma parseIfd2_body_eq:
  "parseIfd2_body dv tagOffset tiffOffset isBigEndian exifData
     = processIfdEntry dv tagOffset tiffOffset isBigEndian exifData"
  by (simp add: parseIfd2_body_def processIfdEntry_def exifTags_eq getTagValue2_eq
      cong: sum.case_cong option.case_cong)

lemma parseIfd2_loop_eq:
  "parseIfd2_loop dv ifdOffset tiffOffset isBigEndian bound i exifData entries
     = parseIfd_loop dv ifdOffset tiffOffset isBigEndian bound i exifData entries"
proof (induction dv ifdOffset tiffOffset isBigEndian bound i exifData entries
       rule: parseIfd_loop.induct)
  case (1 dv ifdOffset tiffOffset isBigEndian bound i exifData entries)
  show ?case
  proof (cases "i < bound")
    case False
    then show ?thesis
      by (simp add: parseIfd2_loop.simps [of dv ifdOffset tiffOffset isBigEndian bound i]
          parseIfd_loop.simps [of dv ifdOffset tiffOffset isBigEndian bound i])
  next
    case True
    show ?thesis
    proof (cases "processIfdEntry dv (ifdOffset + 2 + i * 12) tiffOffset isBigEndian exifData")
      case (Inl e)
      with True show ?thesis
        by (simp add: parseIfd2_loop.simps [of dv ifdOffset tiffOffset isBigEndian bound i]
            parseIfd_loop.simps [of dv ifdOffset tiffOffset isBigEndian bound i]
            parseIfd2_body_eq)
    next
      case (Inr ex)
      from "1.IH" [OF True Inr] True Inr show ?thesis
        by (simp add: parseIfd2_loop.simps [of dv ifdOffset tiffOffset isBigEndian bound i]
            parseIfd_loop.simps [of dv ifdOffset tiffOffset isBigEndian bound i]
            parseIfd2_body_eq)
    qed
  qed
qed

lemma parseIfd2_eq:
  "parseIfd2 dv ifdOffset tiffOffset isBigEndian exifData
     = parseIfd dv ifdOffset tiffOffset isBigEndian exifData"
  by (simp add: parseIfd2_def parseIfd_def parseIfd2_loop_eq cong: sum.case_cong)

lemma decodeExifTiff2_eq: "decodeExifTiff2 dv tiffOffset = decodeExifTiff dv tiffOffset"
  by (simp add: decodeExifTiff2_def decodeExifTiff_def parseIfd2_eq cong: sum.case_cong)

section \<open>Keys the walker does not touch\<close>

text \<open>
  The walker stores values under the names of the tag registry only, so a key that is
  not such a name keeps its value through the walk.
\<close>

lemma processIfdEntry_other_key:
  assumes "processIfdEntry dv tagOffset tiffOffset isBigEndian exifData = Inr exifData'"
    and "\<And>tag. EXIF_TAGS tag \<noteq> Some key"
  shows "exifData' key = exifData key"
  using assms
  by (auto simp: processIfdEntry_def split: sum.splits option.splits if_splits)

lemma parseIfd_loop_other_key:
  assumes "parseIfd_loop dv ifdOffset tiffOffset isBigEndian bound i exifData entries
             = (exifData', entries', thrown)"
    and "\<And>tag. EXIF_TAGS tag \<noteq> Some key"
  shows "exifData' key = exifData key"
  using assms(1)
proof (induction dv ifdOffset tiffOffset isBigEndian bound i exifData entries
       rule: parseIfd_loop.induct)
  case (1 dv ifdOffset tiffOffset isBigEndian bound i exifData entries)
  show ?case
  proof (cases "i < bound")
    case False
    with "1.prems" show ?thesis
      by (simp add: parseIfd_loop.simps [of dv ifdOffset tiffOffset isBigEndian bound i])
  next
    case True
    show ?thesis
    proof (cases "processIfdEntry dv (ifdOffset + 2 + i * 12) tiffOffset isBigEndian exifData")
      case (Inl e)
      with True "1.prems" show ?thesis
        by (simp add: parseIfd_loop.simps [of dv ifdOffset tiffOffset isBigEndian bound i])
    next
      case (Inr ex)
      with True "1.prems" have
        "parseIfd_loop dv ifdOffset tiffOffset isBigEndian bound (Suc i) ex
           (entries @ [ifdOffset + 2 + i * 12]) = (exifData', entries', thrown)"
        by (simp add: parseIfd_loop.simps [of dv ifdOffset tiffOffset isBigEndian bound i])
      from "1.IH" [OF True Inr this] have "exifData' key = ex key" .
      also have "ex key = exifData key"
        by (rule processIfdEntry_other_key [OF Inr assms(2)])
      finally show ?thesis .
    qed
  qed
qed

lemma parseIfd_other_key:
  assumes "parseIfd dv ifdOffset tiffOffset isBigEndian exifData = (exifData', entries, thrown)"
    and "\<And>tag. EXIF_TAGS tag \<noteq> Some key"
  shows "exifData' key = exifData key"
proof (cases "if isBigEndian then getUint16 dv ifdOffset False else getUint16 dv ifdOffset True")
  case (Inl e)
  with assms(1) show ?thesis by (simp add: parseIfd_def)
next
  case (Inr n)
  with assms(1) have
    "parseIfd_loop dv ifdOffset tiffOffset isBigEndian (min n 50) 0 exifData []
       = (exifData', entries, thrown)"
    by (simp add: parseIfd_def)
  from parseIfd_loop_other_key [OF this assms(2)] show ?thesis .
qed

lemma byteOrder_no_tag: "EXIF_TAGS tag \<noteq> Some ''byteOrder''"
  by (simp add: EXIF_TAGS_def)

lemma format_no_tag: "EXIF_TAGS tag \<noteq> Some ''format''"
  by (simp add: EXIF_TAGS_def)

lemma error_no_tag: "EXIF_TAGS tag \<noteq> Some ''error''"
  by (simp add: EXIF_TAGS_def)

section \<open>The bare TIFF path\<close>

lemmas read_defs = getUint8_def getUint16_def getUint32_def readUint16Value_def readUint32Value_def
lemmas entry_defs = processIfdEntry_def EXIF_TAGS_def getTagValue_def calculateActualOffset_def
  getTypeSize_def TYPE_SIZES_def

text \<open>
  Claim C7. On the bare TIFF path, where the byte-order marker and the magic number can
  be read: if the magic number at offset 2, read with the endianness of the buffer, is
  42, the result is that of the IFD walker started with \<open>tiffOffset = 0\<close> at the IFD0
  offset read at offset 4, on the record with \<open>byteOrder\<close> and \<open>format\<close>; for any other
  magic number the \<^verbatim>\<open>try\<close> block ends without an exception, the result holds
  \<open>byteOrder\<close> and \<open>error = 'Invalid TIFF magic number'\<close> and no name of the tag registry.
\<close>

theorem tiff_magic_number:
  assumes "getUint16 dv 0 False = Inr byteOrder"
    and "readUint16Value dv 2 (byteOrder = 0x4D4D) = Inr magicNumber"
  shows
    "(magicNumber = 42 \<longrightarrow>
        readUint32Value dv 4 (byteOrder = 0x4D4D) = Inr ifd0Offset \<longrightarrow>
        extractTiffExifData dv =
          catch_error ''Failed to parse TIFF EXIF data''
            (case parseIfd dv ifd0Offset 0 (byteOrder = 0x4D4D)
                    [''byteOrder'' \<mapsto> JStr (if byteOrder = 0x4D4D then ''Big Endian (MM)''
                                          else ''Little Endian (II)''),
                     ''format'' \<mapsto> JStr ''Valid TIFF''] of
               (exifData', entries, thrown) \<Rightarrow> (exifData', thrown)))
     \<and> (magicNumber \<noteq> 42 \<longrightarrow>
          extractTiffExifData_try dv =
            ([''byteOrder'' \<mapsto> JStr (if byteOrder = 0x4D4D then ''Big Endian (MM)''
                                   else ''Little Endian (II)''),
              ''error'' \<mapsto> JStr ''Invalid TIFF magic number''], None)
          \<and> extractTiffExifData dv =
              [''byteOrder'' \<mapsto> JStr (if byteOrder = 0x4D4D then ''Big Endian (MM)''
                                    else ''Little Endian (II)''),
               ''error'' \<mapsto> JStr ''Invalid TIFF magic number'']
          \<and> (\<forall>tag name. EXIF_TAGS tag = Some name \<longrightarrow> extractTiffExifData dv name = None))"
proof (intro conjI impI)
  assume "magicNumber = 42" and "readUint32Value dv 4 (byteOrder = 0x4D4D) = Inr ifd0Offset"
  with assms show "extractTiffExifData dv =
          catch_error ''Failed to parse TIFF EXIF data''
            (case parseIfd dv ifd0Offset 0 (byteOrder = 0x4D4D)
                    [''byteOrder'' \<mapsto> JStr (if byteOrder = 0x4D4D then ''Big Endian (MM)''
                                          else ''Little Endian (II)''),
                     ''format'' \<mapsto> JStr ''Valid TIFF''] of
               (exifData', entries, thrown) \<Rightarrow> (exifData', thrown))"
    by (simp add: extractTiffExifData_def extractTiffExifData_try_def readUint16Value_def
        readUint32Value_def Let_def split: if_splits)
next
  assume ne: "magicNumber \<noteq> 42"
  with assms show t: "extractTiffExifData_try dv =
            ([''byteOrder'' \<mapsto> JStr (if byteOrder = 0x4D4D then ''Big Endian (MM)''
                                   else ''Little Endian (II)''),
              ''error'' \<mapsto> JStr ''Invalid TIFF magic number''], None)"
    by (simp add: extractTiffExifData_try_def readUint16Value_def Let_def split: if_splits)
  then show r: "extractTiffExifData dv =
              [''byteOrder'' \<mapsto> JStr (if byteOrder = 0x4D4D then ''Big Endian (MM)''
                                    else ''Little Endian (II)''),
               ''error'' \<mapsto> JStr ''Invalid TIFF magic number'']"
    by (simp add: extractTiffExifData_def catch_error_def)
  show "\<forall>tag name. EXIF_TAGS tag = Some name \<longrightarrow> extractTiffExifData dv name = None"
  proof (intro allI impI)
    fix tag name assume "EXIF_TAGS tag = Some name"
    then have "name \<noteq> ''byteOrder''" "name \<noteq> ''error''"
      using byteOrder_no_tag [of tag] error_no_tag [of tag] by auto
    then show "extractTiffExifData dv name = None" by (simp add: r)
  qed
qed

lemma tiff_orientation_reads:
  "getUint16 tiff_orientation 0 False = Inr 0x4D4D"
  "readUint16Value tiff_orientation 2 True = Inr 42"
  "readUint32Value tiff_orientation 4 True = Inr 8"
  by (simp_all add: tiff_orientation_def read_defs)

lemma tiff_orientation_ifd:
  "parseIfd tiff_orientation 8 0 True exifData
     = (exifData(''Orientation'' \<mapsto> JNum 6), [10], None)"
  by (simp add: tiff_orientation_def parseIfd_def parseIfd_loop.simps read_defs entry_defs)

lemma tiff_bad_magic_reads:
  "getUint16 tiff_bad_magic 0 False = Inr 0x4D4D"
  "readUint16Value tiff_bad_magic 2 True = Inr 43"
  by (simp_all add: tiff_bad_magic_def read_defs)

theorem tiff_magic_number_witness:
  "getUint16 tiff_orientation 0 False = Inr 0x4D4D
   \<and> readUint16Value tiff_orientation 2 True = Inr 42
   \<and> readUint32Value tiff_orientation 4 True = Inr 8
   \<and> extractTiffExifData tiff_orientation =
       [''byteOrder'' \<mapsto> JStr ''Big Endian (MM)'', ''format'' \<mapsto> JStr ''Valid TIFF'',
        ''Orientation'' \<mapsto> JNum 6]
   \<and> getUint16 tiff_bad_magic 0 False = Inr 0x4D4D
   \<and> readUint16Value tiff_bad_magic 2 True = Inr 43
   \<and> extractTiffExifData tiff_bad_magic =
       [''byteOrder'' \<mapsto> JStr ''Big Endian (MM)'',
        ''error'' \<mapsto> JStr ''Invalid TIFF magic number'']
   \<and> extractTiffExifData tiff_bad_magic ''Orientation'' = None"
proof -
  have m: "readUint16Value tiff_orientation 2 (19789 = (0x4D4D::nat)) = Inr 42"
    and p: "readUint32Value tiff_orientation 4 (19789 = (0x4D4D::nat)) = Inr 8"
    and b: "readUint16Value tiff_bad_magic 2 (19789 = (0x4D4D::nat)) = Inr 43"
    by (simp_all add: tiff_orientation_reads tiff_bad_magic_reads)
  have t: "EXIF_TAGS 0x0112 = Some ''Orientation''" by (simp add: EXIF_TAGS_def)
  from tiff_magic_number [OF tiff_orientation_reads(1) m, of 8] p
  have good: "extractTiffExifData tiff_orientation =
       [''byteOrder'' \<mapsto> JStr ''Big Endian (MM)'', ''format'' \<mapsto> JStr ''Valid TIFF'',
        ''Orientation'' \<mapsto> JNum 6]"
    by (simp add: tiff_orientation_ifd catch_error_def)
  from tiff_magic_number [OF tiff_bad_magic_reads(1) b] t
  have bad: "extractTiffExifData tiff_bad_magic =
       [''byteOrder'' \<mapsto> JStr ''Big Endian (MM)'',
        ''error'' \<mapsto> JStr ''Invalid TIFF magic number'']"
    and none: "extractTiffExifData tiff_bad_magic ''Orientation'' = None"
    by simp_all
  from good bad none tiff_orientation_reads tiff_bad_magic_reads show ?thesis by simp
qed

section \<open>The marker scan\<close>

text \<open>
  The header test of the scan succeeds exactly when the six bytes at the header offset
  are the signature; the proof decomposes the big-endian 32-bit value into its bytes.
\<close>

lemma unat_byte_255: "(unat (b :: byte) = 255) = (b = 0xFF)"
  by (simp add: word_unat_eq_iff)
lemma unat_byte_225: "(unat (b :: byte) = 225) = (b = 0xE1)"
  by (simp add: word_unat_eq_iff)
lemma unat_byte_lt: "unat (b :: byte) < 256"
  using unsigned_less [of b, where 'a = nat] by simp

lemma split_256:
  assumes "d < 256" "e < 256" "256 * x + d = 256 * y + (e::nat)"
  shows "x = y \<and> d = e"
proof -
  from assms(3) have "(256 * x + d) mod 256 = (256 * y + e) mod 256" by (simp only:)
  with assms(1,2) have de: "d = e" by simp
  from assms(3) have "(256 * x + d) div 256 = (256 * y + e) div 256" by (simp only:)
  with assms(1,2) have "x = y" by simp
  with de show ?thesis by simp
qed

lemma be32_Exif:
  assumes "a < 256" "b < 256" "c < 256" "d < 256"
  shows "(16777216 * a + 65536 * b + 256 * c + d = (0x45786966 :: nat))
         = (a = 0x45 \<and> b = 0x78 \<and> c = 0x69 \<and> d = 0x66)"
proof
  assume "16777216 * a + 65536 * b + 256 * c + d = (0x45786966 :: nat)"
  then have "256 * (65536 * a + 256 * b + c) + d = 256 * 4552809 + 102" by simp
  from split_256 [OF assms(4) _ this]
  have 1: "65536 * a + 256 * b + c = 4552809" and d: "d = 102" by simp_all
  from 1 have "256 * (256 * a + b) + c = 256 * 17784 + 105" by simp
  from split_256 [OF assms(3) _ this]
  have 2: "256 * a + b = 17784" and c: "c = 105" by simp_all
  from 2 have "256 * a + b = 256 * 69 + 120" by simp
  from split_256 [OF assms(2) _ this]
  have "a = 69" and "b = 120" by simp_all
  with c d show "a = 0x45 \<and> b = 0x78 \<and> c = 0x69 \<and> d = 0x66" by simp
next
  assume "a = 0x45 \<and> b = 0x78 \<and> c = 0x69 \<and> d = 0x66"
  then show "16777216 * a + 65536 * b + 256 * c + d = (0x45786966 :: nat)" by simp
qed

lemma upt_6: "[0..<6] = [0, 1, 2, 3, 4, 5::nat]"
  by (simp add: eval_nat_numeral)

lemma take6_eq:
  "(take 6 (drop h dv) = [c0, c1, c2, c3, c4, c5])
     = (h + 6 \<le> length dv \<and> dv ! h = c0 \<and> dv ! (h + 1) = c1 \<and> dv ! (h + 2) = c2
        \<and> dv ! (h + 3) = c3 \<and> dv ! (h + 4) = c4 \<and> dv ! (h + 5) = c5)"
proof (cases "h + 6 \<le> length dv")
  case False
  then have "length (take 6 (drop h dv)) \<noteq> length [c0, c1, c2, c3, c4, c5]" by simp
  then have "take 6 (drop h dv) \<noteq> [c0, c1, c2, c3, c4, c5]" by metis
  with False show ?thesis by simp
next
  case True
  have "take 6 (drop h dv) = map (\<lambda>k. dv ! (h + k)) [0..<6]"
    by (rule nth_equalityI) (use True in auto)
  then have "take 6 (drop h dv)
     = [dv ! h, dv ! (h + 1), dv ! (h + 2), dv ! (h + 3), dv ! (h + 4), dv ! (h + 5)]"
    by (simp only: upt_6 list.map add_0_right)
  with True show ?thesis by simp
qed

lemma unat_byte_eqs:
  "\<And>x :: byte. (unat x = 69) = (x = 0x45)" "\<And>x :: byte. (unat x = 120) = (x = 0x78)"
  "\<And>x :: byte. (unat x = 105) = (x = 0x69)" "\<And>x :: byte. (unat x = 102) = (x = 0x66)"
  "\<And>x :: byte. (unat x = 0) = (x = 0)"
  by (simp_all add: word_unat_eq_iff)

lemma getUint32_Exif:
  "(getUint32 dv h False = Inr 0x45786966)
     = (h + 4 \<le> length dv \<and> dv ! h = 0x45 \<and> dv ! (h + 1) = 0x78 \<and> dv ! (h + 2) = 0x69
        \<and> dv ! (h + 3) = 0x66)"
proof (cases "h + 4 \<le> length dv")
  case False
  then show ?thesis by (simp add: getUint32_def)
next
  case True
  then have "getUint32 dv h False
      = Inr (16777216 * unat (dv ! h) + 65536 * unat (dv ! (h + 1))
             + 256 * unat (dv ! (h + 2)) + unat (dv ! (h + 3)))"
    by (simp add: getUint32_def Let_def)
  then have "(getUint32 dv h False = Inr 0x45786966)
      = (16777216 * unat (dv ! h) + 65536 * unat (dv ! (h + 1))
             + 256 * unat (dv ! (h + 2)) + unat (dv ! (h + 3)) = (0x45786966 :: nat))"
    by (simp only: sum.inject)
  also have "\<dots> = (unat (dv ! h) = 0x45 \<and> unat (dv ! (h + 1)) = 0x78
                   \<and> unat (dv ! (h + 2)) = 0x69 \<and> unat (dv ! (h + 3)) = 0x66)"
    by (rule be32_Exif [OF unat_byte_lt unat_byte_lt unat_byte_lt unat_byte_lt])
  also have "\<dots> = (dv ! h = 0x45 \<and> dv ! (h + 1) = 0x78 \<and> dv ! (h + 2) = 0x69
                   \<and> dv ! (h + 3) = 0x66)"
    by (simp only: unat_byte_eqs)
  finally show ?thesis using True by simp
qed

lemma getUint16_zero:
  "(getUint16 dv h False = Inr 0) = (h + 2 \<le> length dv \<and> dv ! h = 0 \<and> dv ! (h + 1) = 0)"
  by (simp add: getUint16_def Let_def unat_byte_eqs)

lemma isExifHeader_True:
  "(isExifHeader dv h = Inr True)
     = (getUint32 dv h False = Inr 0x45786966 \<and> getUint16 dv (h + 4) False = Inr 0)"
  by (auto simp: isExifHeader_def split: sum.splits if_splits)

lemma isExifHeader_True_iff:
  "(isExifHeader dv h = Inr True) = (take 6 (drop h dv) = exif_signature)"
proof -
  have e: "h + 4 + 1 = h + 5" "h + 4 + 2 = h + 6" by simp_all
  have l: "h + 6 \<le> length dv \<Longrightarrow> h + 4 \<le> length dv" by simp
  show ?thesis
    by (simp only: isExifHeader_True getUint32_Exif getUint16_zero exif_signature_def take6_eq e)
       (use l in blast)
qed

text \<open>
  One step of each scan in terms of \<open>app1_at\<close>, the scans on a buffer without a marker,
  and the scans up to the first marker.
\<close>

lemma error_eq: "(e :: error) = e'"
  by (cases e, cases e') simp

lemma isApp1Marker_eq: "i + 1 < length dv \<Longrightarrow> isApp1Marker dv i = Inr (app1_at dv i)"
  by (auto simp: isApp1Marker_def getUint8_def app1_at_def unat_byte_255 unat_byte_225)

lemma findExifMarker_loop_step:
  "findExifMarker_loop dv i =
     (if i + 1 < length dv
      then (if app1_at dv i
            then (case isExifHeader dv (i + 4) of
                    Inl e \<Rightarrow> Inl e
                  | Inr header \<Rightarrow>
                      if header then Inr (int (i + 4)) else findExifMarker_loop dv (Suc i))
            else findExifMarker_loop dv (Suc i))
      else Inr (- 1))"
proof (cases "i + 1 < length dv")
  case True
  then have "int i < int (length dv) - 1" by linarith
  with True show ?thesis
    by (subst findExifMarker_loop.simps) (simp add: isApp1Marker_eq)
next
  case False
  then have "\<not> int i < int (length dv) - 1" by linarith
  with False show ?thesis
    by (subst findExifMarker_loop.simps) simp
qed

lemma extractExifData2_loop_step:
  "extractExifData2_loop dv i =
     (if i + 1 < length dv
      then (if app1_at dv i
            then (case isExifHeader dv (i + 4) of
                    Inl e \<Rightarrow> (Map.empty, Some RangeError)
                  | Inr header \<Rightarrow>
                      if header then decodeExifTiff dv (i + 4 + 6) else (Map.empty, None))
            else extractExifData2_loop dv (Suc i))
      else (Map.empty, None))"
proof (cases "i + 1 < length dv")
  case False
  then have "\<not> int i < int (length dv) - 1" by linarith
  with False show ?thesis
    by (subst extractExifData2_loop.simps) simp
next
  case True
  then have g: "int i < int (length dv) - 1" by linarith
  show ?thesis
  proof (cases "getUint16 dv (i + 2) False")
    case (Inl e)
    then have "length dv < i + 4" by (simp add: getUint16_def split: if_splits)
    then have "isExifHeader dv (i + 4) = Inl RangeError"
      by (simp add: isExifHeader_def getUint32_def)
    with True g Inl show ?thesis
      by (subst extractExifData2_loop.simps) (cases e, simp add: isApp1Marker_eq)
  next
    case (Inr n)
    with True g show ?thesis
      by (subst extractExifData2_loop.simps)
         (auto simp: isApp1Marker_eq decodeExifTiff2_eq split: sum.splits intro: error_eq)
  qed
qed

lemma findExifMarker_loop_none:
  "(\<And>j. i \<le> j \<Longrightarrow> \<not> app1_at dv j) \<Longrightarrow> findExifMarker_loop dv i = Inr (- 1)"
proof (induction dv i rule: findExifMarker_loop.induct)
  case (1 dv i)
  show ?case
  proof (cases "i + 1 < length dv")
    case False
    then show ?thesis by (subst findExifMarker_loop_step) simp
  next
    case True
    then have g: "int i < int (length dv) - 1" by linarith
    have na: "\<not> app1_at dv i" using "1.prems" by simp
    have m: "isApp1Marker dv i = Inr False" using True na by (simp add: isApp1Marker_eq)
    have "findExifMarker_loop dv (Suc i) = Inr (- 1)"
      using "1.IH"(2) [OF g m] "1.prems" by simp
    with True na show ?thesis by (subst findExifMarker_loop_step) simp
  qed
qed

lemma extractExifData2_loop_none:
  "(\<And>j. i \<le> j \<Longrightarrow> \<not> app1_at dv j) \<Longrightarrow> extractExifData2_loop dv i = (Map.empty, None)"
proof (induction dv i rule: extractExifData2_loop.induct)
  case (1 dv i)
  show ?case
  proof (cases "i + 1 < length dv")
    case False
    then show ?thesis by (subst extractExifData2_loop_step) simp
  next
    case True
    then have g: "int i < int (length dv) - 1" by linarith
    have na: "\<not> app1_at dv i" using "1.prems" by simp
    have m: "isApp1Marker dv i = Inr False" using True na by (simp add: isApp1Marker_eq)
    have "extractExifData2_loop dv (Suc i) = (Map.empty, None)"
      using "1.IH" [OF g m] "1.prems" by simp
    with True na show ?thesis by (subst extractExifData2_loop_step) simp
  qed
qed

lemma findExifMarker_loop_skip:
  assumes "i \<le> m" and "\<And>j. i \<le> j \<Longrightarrow> j < m \<Longrightarrow> \<not> app1_at dv j" and "m + 1 < length dv"
  shows "findExifMarker_loop dv i = findExifMarker_loop dv m"
  using assms
proof (induction rule: inc_induct)
  case base
  show ?case ..
next
  case (step n)
  have "\<not> app1_at dv n" using step.prems(1) [of n] step.hyps by simp
  moreover have "n + 1 < length dv" using step.hyps step.prems(2) by linarith
  ultimately have "findExifMarker_loop dv n = findExifMarker_loop dv (Suc n)"
    by (subst findExifMarker_loop_step) simp
  also have "\<dots> = findExifMarker_loop dv m"
    using step.IH step.prems by simp
  finally show ?case .
qed

lemma extractExifData2_loop_skip:
  assumes "i \<le> m" and "\<And>j. i \<le> j \<Longrightarrow> j < m \<Longrightarrow> \<not> app1_at dv j" and "m + 1 < length dv"
  shows "extractExifData2_loop dv i = extractExifData2_loop dv m"
  using assms
proof (induction rule: inc_induct)
  case base
  show ?case ..
next
  case (step n)
  have "\<not> app1_at dv n" using step.prems(1) [of n] step.hyps by simp
  moreover have "n + 1 < length dv" using step.hyps step.prems(2) by linarith
  ultimately have "extractExifData2_loop dv n = extractExifData2_loop dv (Suc n)"
    by (subst extractExifData2_loop_step) simp
  also have "\<dots> = extractExifData2_loop dv m"
    using step.IH step.prems by simp
  finally show ?case .
qed

lemma findExifMarker_first:
  assumes "app1_at dv i" and "\<And>j. j < i \<Longrightarrow> \<not> app1_at dv j"
  shows "findExifMarker dv =
           (case isExifHeader dv (i + 4) of
              Inl e \<Rightarrow> Inl e
            | Inr header \<Rightarrow>
                if header then Inr (int (i + 4)) else findExifMarker_loop dv (Suc i))"
proof -
  from assms(1) have r: "i + 1 < length dv" by (simp add: app1_at_def)
  have "findExifMarker dv = findExifMarker_loop dv i"
    unfolding findExifMarker_def
    by (rule findExifMarker_loop_skip) (use assms(2) r in simp_all)
  also have "\<dots> = (case isExifHeader dv (i + 4) of
              Inl e \<Rightarrow> Inl e
            | Inr header \<Rightarrow>
                if header then Inr (int (i + 4)) else findExifMarker_loop dv (Suc i))"
    using r assms(1) by (subst findExifMarker_loop_step) simp
  finally show ?thesis .
qed

lemma extractExifData2_first:
  assumes "app1_at dv i" and "\<And>j. j < i \<Longrightarrow> \<not> app1_at dv j"
  shows "extractExifData2_loop dv 0 =
           (case isExifHeader dv (i + 4) of
              Inl e \<Rightarrow> (Map.empty, Some RangeError)
            | Inr header \<Rightarrow>
                if header then decodeExifTiff dv (i + 4 + 6) else (Map.empty, None))"
proof -
  from assms(1) have r: "i + 1 < length dv" by (simp add: app1_at_def)
  have "extractExifData2_loop dv 0 = extractExifData2_loop dv i"
    by (rule extractExifData2_loop_skip) (use assms(2) r in simp_all)
  also have "\<dots> = (case isExifHeader dv (i + 4) of
              Inl e \<Rightarrow> (Map.empty, Some RangeError)
            | Inr header \<Rightarrow>
                if header then decodeExifTiff dv (i + 4 + 6) else (Map.empty, None))"
    using r assms(1) by (subst extractExifData2_loop_step) simp
  finally show ?thesis .
qed

lemma exif_none:
  assumes "\<And>j. \<not> app1_at dv j"
  shows "extractExifData dv = Map.empty" and "extractExifData2 dv = Map.empty"
proof -
  have "findExifMarker dv = Inr (- 1)"
    unfolding findExifMarker_def by (rule findExifMarker_loop_none) (rule assms)
  then show "extractExifData dv = Map.empty"
    by (simp add: extractExifData_def extractExifData_try_def catch_error_def)
  have "extractExifData2_loop dv 0 = (Map.empty, None)"
    by (rule extractExifData2_loop_none) (rule assms)
  then show "extractExifData2 dv = Map.empty"
    by (simp add: extractExifData2_def catch_error_def)
qed

lemma exif_first_header:
  assumes "app1_at dv i" and "\<And>j. j < i \<Longrightarrow> \<not> app1_at dv j"
    and "isExifHeader dv (i + 4) = Inr True"
  shows "extractExifData dv
           = catch_error ''Failed to parse EXIF data'' (decodeExifTiff dv (i + 4 + 6))"
    and "extractExifData2 dv
           = catch_error ''Failed to parse EXIF data'' (decodeExifTiff dv (i + 4 + 6))"
proof -
  from findExifMarker_first [OF assms(1,2)] assms(3)
  have "findExifMarker dv = Inr (int (i + 4))" by simp
  then show "extractExifData dv
           = catch_error ''Failed to parse EXIF data'' (decodeExifTiff dv (i + 4 + 6))"
    by (simp add: extractExifData_def extractExifData_try_def nat_add_distrib)
  from extractExifData2_first [OF assms(1,2)] assms(3)
  show "extractExifData2 dv
           = catch_error ''Failed to parse EXIF data'' (decodeExifTiff dv (i + 4 + 6))"
    by (simp add: extractExifData2_def)
qed

lemma exif_first_overrun:
  assumes "app1_at dv i" and "\<And>j. j < i \<Longrightarrow> \<not> app1_at dv j"
    and "isExifHeader dv (i + 4) = Inl e"
  shows "extractExifData dv = [''error'' \<mapsto> JStr ''Failed to parse EXIF data'']"
    and "extractExifData2 dv = [''error'' \<mapsto> JStr ''Failed to parse EXIF data'']"
proof -
  from findExifMarker_first [OF assms(1,2)] assms(3)
  have "findExifMarker dv = Inl e" by simp
  then show "extractExifData dv = [''error'' \<mapsto> JStr ''Failed to parse EXIF data'']"
    by (simp add: extractExifData_def extractExifData_try_def catch_error_def)
  from extractExifData2_first [OF assms(1,2)] assms(3)
  show "extractExifData2 dv = [''error'' \<mapsto> JStr ''Failed to parse EXIF data'']"
    by (simp add: extractExifData2_def catch_error_def)
qed

lemma exif_first_mismatch:
  assumes "app1_at dv i" and "\<And>j. j < i \<Longrightarrow> \<not> app1_at dv j"
    and "isExifHeader dv (i + 4) = Inr False"
  shows "extractExifData2 dv = Map.empty"
  using extractExifData2_first [OF assms(1,2)] assms(3)
  by (simp add: extractExifData2_def catch_error_def)

lemma isExifHeader_overrun_iff:
  "(isExifHeader dv h = Inl e)
     = (length dv < h + 4 \<or> (getUint32 dv h False = Inr 0x45786966 \<and> length dv < h + 6))"
  by (auto simp: isExifHeader_def getUint16_def getUint32_def Let_def split: if_splits
      intro: error_eq)

section \<open>The EXIF scan of the JPEG path\<close>

lemma app1_at_Cons:
  "app1_at (b0 # b1 # bs) j
     = ((j = 0 \<and> b0 = 0xFF \<and> b1 = 0xE1) \<or> (0 < j \<and> app1_at (b1 # bs) (j - 1)))"
  by (cases j) (auto simp: app1_at_def)

lemma app1_at_short: "app1_at [b] j = False" "app1_at [] j = False"
  by (simp_all add: app1_at_def)

lemma jpeg_without_app1_none: "\<not> app1_at jpeg_without_app1 j"
  by (simp add: jpeg_without_app1_def app1_at_Cons app1_at_short)

lemma first_app1_samples:
  "app1_at jpeg_big_endian 2" "\<not> app1_at jpeg_big_endian 0" "\<not> app1_at jpeg_big_endian 1"
  "app1_at jpeg_cut_after_marker 2" "\<not> app1_at jpeg_cut_after_marker 0"
  "\<not> app1_at jpeg_cut_after_marker 1"
  "app1_at jpeg_two_app1 2" "\<not> app1_at jpeg_two_app1 0" "\<not> app1_at jpeg_two_app1 1"
  by (simp_all add: app1_at_def jpeg_big_endian_def jpeg_cut_after_marker_def jpeg_two_app1_def)

lemma before_2: "(\<forall>j<2. P j) = (P 0 \<and> P (1::nat))"
  by (auto simp: less_Suc_eq numeral_2_eq_2)

lemma before_two: "\<not> P 0 \<Longrightarrow> \<not> P (1::nat) \<Longrightarrow> j < 2 \<Longrightarrow> \<not> P j"
  by (auto simp: less_Suc_eq numeral_2_eq_2)

lemma header_samples:
  "take 6 (drop (2 + 4) jpeg_big_endian) = exif_signature"
  "isExifHeader jpeg_cut_after_marker (2 + 4) = Inl RangeError"
  "take 6 (drop (2 + 4) jpeg_cut_after_marker) \<noteq> exif_signature"
  "isExifHeader jpeg_two_app1 (2 + 4) = Inr False"
  "take 6 (drop (2 + 4) jpeg_two_app1) \<noteq> exif_signature"
  by (simp_all add: jpeg_big_endian_def jpeg_cut_after_marker_def jpeg_two_app1_def
      exif_signature_def isExifHeader_def getUint32_def getUint16_def)

lemma jpeg_big_endian_decode:
  "decodeExifTiff jpeg_big_endian 12
     = ([''byteOrder'' \<mapsto> JStr ''Big Endian'', ''Orientation'' \<mapsto> JNum 6], None)"
  by (simp add: decodeExifTiff_def jpeg_big_endian_def parseIfd_def parseIfd_loop.simps
      read_defs entry_defs)

lemma jpeg_two_app1_first_copy:
  "extractExifData jpeg_two_app1
     = [''byteOrder'' \<mapsto> JStr ''Little Endian'', ''Orientation'' \<mapsto> JNum 6]"
proof -
  have f: "findExifMarker jpeg_two_app1 = Inr 14"
    by (simp add: findExifMarker_def jpeg_two_app1_def findExifMarker_loop.simps
        isApp1Marker_def isExifHeader_def getUint8_def getUint16_def getUint32_def)
  have d: "decodeExifTiff jpeg_two_app1 20
     = ([''byteOrder'' \<mapsto> JStr ''Little Endian'', ''Orientation'' \<mapsto> JNum 6], None)"
    by (simp add: decodeExifTiff_def jpeg_two_app1_def parseIfd_def parseIfd_loop.simps
        read_defs entry_defs)
  show ?thesis
    by (simp add: extractExifData_def extractExifData_try_def f d catch_error_def)
qed

lemma jpeg_two_app1_second_copy: "extractExifData2 jpeg_two_app1 = Map.empty"
  using header_samples(4)
  by (intro exif_first_mismatch [OF first_app1_samples(7)]
        before_two [of "app1_at jpeg_two_app1", OF first_app1_samples(8,9)]) simp_all

text \<open>
  Claim C6, as amended. If the buffer holds no marker \<open>0xFF 0xE1\<close>, the EXIF mapping is
  empty. If the first marker is at \<open>i\<close> and the six bytes at \<open>i + 4\<close> are \<open>Exif\0\0\<close>, the
  mapping is that of the TIFF decoding of the sub-stream that begins six bytes later.
  If reading the header at the first marker overruns the buffer, the mapping holds the
  note \<open>error = 'Failed to parse EXIF data'\<close> and nothing else. All this holds for both
  copies of the extraction. If the header at the first marker can be read and differs,
  the second copy returns the empty mapping; nothing is said here about the first copy
  in that case.
\<close>

theorem exif_marker_scan:
  "((\<forall>j. \<not> app1_at dv j) \<longrightarrow>
      extractExifData dv = Map.empty \<and> extractExifData2 dv = Map.empty)
   \<and> (app1_at dv i \<and> (\<forall>j<i. \<not> app1_at dv j) \<longrightarrow>
        (take 6 (drop (i + 4) dv) = exif_signature \<longrightarrow>
           extractExifData dv
             = catch_error ''Failed to parse EXIF data'' (decodeExifTiff dv (i + 4 + 6))
           \<and> extractExifData2 dv
             = catch_error ''Failed to parse EXIF data'' (decodeExifTiff dv (i + 4 + 6)))
      \<and> (isExifHeader dv (i + 4) = Inl RangeError \<longrightarrow>
           extractExifData dv = [''error'' \<mapsto> JStr ''Failed to parse EXIF data'']
           \<and> extractExifData2 dv = [''error'' \<mapsto> JStr ''Failed to parse EXIF data''])
      \<and> (isExifHeader dv (i + 4) = Inr False \<longrightarrow> extractExifData2 dv = Map.empty))"
proof (intro conjI impI)
  assume n: "\<forall>j. \<not> app1_at dv j"
  then show "extractExifData dv = Map.empty" by (intro exif_none) simp
  from n show "extractExifData2 dv = Map.empty" by (intro exif_none) simp
next
  assume f: "app1_at dv i \<and> (\<forall>j<i. \<not> app1_at dv j)"
  then have a: "app1_at dv i" and b: "\<And>j. j < i \<Longrightarrow> \<not> app1_at dv j" by simp_all
  {
    assume "take 6 (drop (i + 4) dv) = exif_signature"
    then have h: "isExifHeader dv (i + 4) = Inr True" by (simp add: isExifHeader_True_iff)
    show "extractExifData dv
             = catch_error ''Failed to parse EXIF data'' (decodeExifTiff dv (i + 4 + 6))"
      by (rule exif_first_header [OF a b h])
    show "extractExifData2 dv
             = catch_error ''Failed to parse EXIF data'' (decodeExifTiff dv (i + 4 + 6))"
      by (rule exif_first_header [OF a b h])
  }
  {
    assume h: "isExifHeader dv (i + 4) = Inl RangeError"
    show "extractExifData dv = [''error'' \<mapsto> JStr ''Failed to parse EXIF data'']"
      by (rule exif_first_overrun [OF a b h])
    show "extractExifData2 dv = [''error'' \<mapsto> JStr ''Failed to parse EXIF data'']"
      by (rule exif_first_overrun [OF a b h])
  }
  {
    assume h: "isExifHeader dv (i + 4) = Inr False"
    show "extractExifData2 dv = Map.empty"
      by (rule exif_first_mismatch [OF a b h])
  }
qed

theorem exif_marker_scan_witness:
  "(\<forall>j. \<not> app1_at jpeg_without_app1 j)
   \<and> extractExifData jpeg_without_app1 = Map.empty
   \<and> extractExifData2 jpeg_without_app1 = Map.empty
   \<and> app1_at jpeg_big_endian 2 \<and> \<not> app1_at jpeg_big_endian 0 \<and> \<not> app1_at jpeg_big_endian 1
   \<and> take 6 (drop (2 + 4) jpeg_big_endian) = exif_signature
   \<and> extractExifData jpeg_big_endian
       = [''byteOrder'' \<mapsto> JStr ''Big Endian'', ''Orientation'' \<mapsto> JNum 6]
   \<and> extractExifData2 jpeg_big_endian
       = [''byteOrder'' \<mapsto> JStr ''Big Endian'', ''Orientation'' \<mapsto> JNum 6]
   \<and> app1_at jpeg_cut_after_marker 2 \<and> \<not> app1_at jpeg_cut_after_marker 0
   \<and> \<not> app1_at jpeg_cut_after_marker 1
   \<and> isExifHeader jpeg_cut_after_marker (2 + 4) = Inl RangeError
   \<and> extractExifData jpeg_cut_after_marker
       = [''error'' \<mapsto> JStr ''Failed to parse EXIF data'']
   \<and> extractExifData2 jpeg_cut_after_marker
       = [''error'' \<mapsto> JStr ''Failed to parse EXIF data'']
   \<and> app1_at jpeg_two_app1 2 \<and> \<not> app1_at jpeg_two_app1 0 \<and> \<not> app1_at jpeg_two_app1 1
   \<and> isExifHeader jpeg_two_app1 (2 + 4) = Inr False
   \<and> extractExifData2 jpeg_two_app1 = Map.empty"
proof -
  have none: "\<forall>j. \<not> app1_at jpeg_without_app1 j"
    by (simp add: jpeg_without_app1_none)
  have f1: "app1_at jpeg_big_endian 2 \<and> (\<forall>j<2. \<not> app1_at jpeg_big_endian j)"
    and f2: "app1_at jpeg_cut_after_marker 2 \<and> (\<forall>j<2. \<not> app1_at jpeg_cut_after_marker j)"
    and f3: "app1_at jpeg_two_app1 2 \<and> (\<forall>j<2. \<not> app1_at jpeg_two_app1 j)"
    using first_app1_samples by (simp_all add: before_2)
  from exif_marker_scan [of jpeg_without_app1 0] none
  have w0: "extractExifData jpeg_without_app1 = Map.empty"
    "extractExifData2 jpeg_without_app1 = Map.empty"
    by blast+
  from exif_marker_scan [of jpeg_big_endian 2] f1 header_samples(1)
  have w1: "extractExifData jpeg_big_endian
       = [''byteOrder'' \<mapsto> JStr ''Big Endian'', ''Orientation'' \<mapsto> JNum 6]"
    "extractExifData2 jpeg_big_endian
       = [''byteOrder'' \<mapsto> JStr ''Big Endian'', ''Orientation'' \<mapsto> JNum 6]"
    by (simp_all add: jpeg_big_endian_decode catch_error_def)
  from exif_marker_scan [of jpeg_cut_after_marker 2] f2 header_samples(2)
  have w2: "extractExifData jpeg_cut_after_marker
       = [''error'' \<mapsto> JStr ''Failed to parse EXIF data'']"
    "extractExifData2 jpeg_cut_after_marker
       = [''error'' \<mapsto> JStr ''Failed to parse EXIF data'']"
    by blast+
  from exif_marker_scan [of jpeg_two_app1 2] f3 header_samples(4)
  have w3: "extractExifData2 jpeg_two_app1 = Map.empty"
    by blast
  from none w0 w1 w2 w3 first_app1_samples header_samples show ?thesis
    by simp
qed

text \<open>
  Claim C6 as stated says that the mapping is empty whenever the header test at the
  first marker does not succeed. On the file cut off after its first marker the test
  cannot read the header and both copies return the error note. On the file with two
  APP1 segments the header at the first marker is read and differs, and the first copy
  goes on to the second segment and decodes it.
\<close>

theorem exif_scan_not_empty_counterexample:
  "app1_at jpeg_cut_after_marker 2 \<and> \<not> app1_at jpeg_cut_after_marker 0
   \<and> \<not> app1_at jpeg_cut_after_marker 1
   \<and> take 6 (drop (2 + 4) jpeg_cut_after_marker) \<noteq> exif_signature
   \<and> extractExifData jpeg_cut_after_marker
       = [''error'' \<mapsto> JStr ''Failed to parse EXIF data'']
   \<and> extractExifData2 jpeg_cut_after_marker
       = [''error'' \<mapsto> JStr ''Failed to parse EXIF data'']
   \<and> [''error'' \<mapsto> JStr ''Failed to parse EXIF data''] \<noteq> Map.empty
   \<and> app1_at jpeg_two_app1 2 \<and> \<not> app1_at jpeg_two_app1 0 \<and> \<not> app1_at jpeg_two_app1 1
   \<and> take 6 (drop (2 + 4) jpeg_two_app1) \<noteq> exif_signature
   \<and> extractExifData jpeg_two_app1
       = [''byteOrder'' \<mapsto> JStr ''Little Endian'', ''Orientation'' \<mapsto> JNum 6]
   \<and> [''byteOrder'' \<mapsto> JStr ''Little Endian'', ''Orientation'' \<mapsto> JNum 6] \<noteq> Map.empty"
proof -
  have b: "\<And>j. j < 2 \<Longrightarrow> \<not> app1_at jpeg_cut_after_marker j"
    by (rule before_two [of "app1_at jpeg_cut_after_marker", OF first_app1_samples(5,6)])
  note cut = exif_first_overrun [OF first_app1_samples(4) b header_samples(2)]
  show ?thesis
    using first_app1_samples header_samples cut jpeg_two_app1_first_copy by simp
qed

section \<open>The two copies of the EXIF extraction\<close>

text \<open>
  The copies return the same mapping unless the header test at the first marker reads
  the header and finds it different.
\<close>

lemma exif_copies_agree:
  assumes "\<And>i. app1_at dv i \<Longrightarrow> (\<forall>j<i. \<not> app1_at dv j) \<Longrightarrow> isExifHeader dv (i + 4) \<noteq> Inr False"
  shows "extractExifData dv = extractExifData2 dv"
proof (cases "\<exists>i. app1_at dv i")
  case False
  then show ?thesis by (simp add: exif_none)
next
  case True
  define i where "i = (LEAST i. app1_at dv i)"
  from True have a: "app1_at dv i" unfolding i_def by (metis LeastI)
  have b: "\<And>j. j < i \<Longrightarrow> \<not> app1_at dv j" unfolding i_def by (rule not_less_Least)
  from assms [OF a] b have ne: "isExifHeader dv (i + 4) \<noteq> Inr False" by simp
  show ?thesis
  proof (cases "isExifHeader dv (i + 4)")
    case (Inl e)
    from exif_first_overrun [OF a b Inl] show ?thesis by simp
  next
    case (Inr header)
    with ne have "isExifHeader dv (i + 4) = Inr True" by (cases header) simp_all
    from exif_first_header [OF a b this] show ?thesis by simp
  qed
qed

text \<open>
  Claim C10 says that the two copies return equal mappings for every buffer, in
  particular when an earlier marker fails the header test. On the file with two APP1
  segments the first copy returns the tags of the second segment and the second copy
  returns the empty mapping.
\<close>

theorem exif_copies_diverge:
  "extractExifData jpeg_two_app1
     = [''byteOrder'' \<mapsto> JStr ''Little Endian'', ''Orientation'' \<mapsto> JNum 6]
   \<and> extractExifData2 jpeg_two_app1 = Map.empty
   \<and> extractExifData jpeg_two_app1 \<noteq> extractExifData2 jpeg_two_app1"
  by (simp add: jpeg_two_app1_first_copy jpeg_two_app1_second_copy)

section \<open>The byte-order marker of the JPEG path\<close>

lemma catch_error_other_key:
  "key \<noteq> ''error'' \<Longrightarrow> catch_error message r key = fst r key"
  by (simp add: catch_error_def split: option.splits)

lemma decodeExifTiff_byteOrder:
  assumes "getUint16 dv tiffOffset False = Inr marker"
  shows "fst (decodeExifTiff dv tiffOffset) ''byteOrder''
           = Some (JStr (if marker = 0x4D4D then ''Big Endian'' else ''Little Endian''))"
proof (cases "if marker = 0x4D4D then getUint32 dv (tiffOffset + 4) False
              else getUint32 dv (tiffOffset + 4) True")
  case (Inl e)
  with assms show ?thesis by (simp add: decodeExifTiff_def Let_def)
next
  case (Inr pointer)
  obtain ex entries thrown where
    p: "parseIfd dv (tiffOffset + pointer) tiffOffset (marker = 0x4D4D)
          [''byteOrder'' \<mapsto> JStr (if marker = 0x4D4D then ''Big Endian'' else ''Little Endian'')]
        = (ex, entries, thrown)"
    by (metis prod_cases3)
  from parseIfd_other_key [OF p byteOrder_no_tag]
  have "ex ''byteOrder''
          = Some (JStr (if marker = 0x4D4D then ''Big Endian'' else ''Little Endian''))"
    by simp
  with assms Inr p show ?thesis by (simp add: decodeExifTiff_def Let_def)
qed

text \<open>
  Claim C9, as amended. On the JPEG path, once the marker search has returned a header
  offset, the decoder reads the two bytes at the start of the TIFF sub-stream before it
  reads the IFD0 pointer. The value \<open>0x4D4D\<close> (\<open>MM\<close>) selects big-endian; every other
  value, \<open>II\<close> included, selects little-endian. No value is rejected: the record gets
  \<open>byteOrder\<close> accordingly, and if the IFD0 pointer can be read with that endianness the
  IFD walker runs on it.
\<close>

theorem exif_byte_order_marker:
  assumes "findExifMarker dv = Inr (int exifHeaderOffset)"
    and "getUint16 dv (exifHeaderOffset + 6) False = Inr marker"
  shows "extractExifData dv ''byteOrder''
           = Some (JStr (if marker = 0x4D4D then ''Big Endian'' else ''Little Endian''))
       \<and> (readUint32Value dv (exifHeaderOffset + 6 + 4) (marker = 0x4D4D) = Inr pointer \<longrightarrow>
            extractExifData dv =
              catch_error ''Failed to parse EXIF data''
                (case parseIfd dv (exifHeaderOffset + 6 + pointer) (exifHeaderOffset + 6)
                        (marker = 0x4D4D)
                        [''byteOrder'' \<mapsto> JStr (if marker = 0x4D4D then ''Big Endian''
                                              else ''Little Endian'')] of
                   (exifData', entries, thrown) \<Rightarrow> (exifData', thrown)))"
proof -
  from assms(1) have e: "extractExifData dv
      = catch_error ''Failed to parse EXIF data'' (decodeExifTiff dv (exifHeaderOffset + 6))"
    by (simp add: extractExifData_def extractExifData_try_def nat_add_distrib)
  have 1: "extractExifData dv ''byteOrder''
           = Some (JStr (if marker = 0x4D4D then ''Big Endian'' else ''Little Endian''))"
    unfolding e by (simp add: catch_error_other_key decodeExifTiff_byteOrder [OF assms(2)])
  have 2: "readUint32Value dv (exifHeaderOffset + 6 + 4) (marker = 0x4D4D) = Inr pointer \<longrightarrow>
            extractExifData dv =
              catch_error ''Failed to parse EXIF data''
                (case parseIfd dv (exifHeaderOffset + 6 + pointer) (exifHeaderOffset + 6)
                        (marker = 0x4D4D)
                        [''byteOrder'' \<mapsto> JStr (if marker = 0x4D4D then ''Big Endian''
                                              else ''Little Endian'')] of
                   (exifData', entries, thrown) \<Rightarrow> (exifData', thrown))"
    unfolding e using assms(2)
    by (auto simp: decodeExifTiff_def readUint32Value_def Let_def)
  from 1 2 show ?thesis ..
qed

lemma jpeg_big_endian_found: "findExifMarker jpeg_big_endian = Inr (int 6)"
  by (simp add: findExifMarker_def jpeg_big_endian_def findExifMarker_loop.simps
      isApp1Marker_def isExifHeader_def getUint8_def getUint16_def getUint32_def)

lemma jpeg_big_endian_reads:
  "getUint16 jpeg_big_endian 12 False = Inr 0x4D4D"
  "readUint32Value jpeg_big_endian 16 True = Inr 8"
  "parseIfd jpeg_big_endian 20 12 True exifData
     = (exifData(''Orientation'' \<mapsto> JNum 6), [22], None)"
  by (simp_all add: jpeg_big_endian_def parseIfd_def parseIfd_loop.simps read_defs entry_defs)

theorem exif_byte_order_marker_witness:
  "findExifMarker jpeg_big_endian = Inr (int 6)
   \<and> getUint16 jpeg_big_endian (6 + 6) False = Inr 0x4D4D
   \<and> readUint32Value jpeg_big_endian (6 + 6 + 4) True = Inr 8
   \<and> extractExifData jpeg_big_endian ''byteOrder'' = Some (JStr ''Big Endian'')
   \<and> extractExifData jpeg_big_endian
       = [''byteOrder'' \<mapsto> JStr ''Big Endian'', ''Orientation'' \<mapsto> JNum 6]"
proof -
  have m: "getUint16 jpeg_big_endian (6 + 6) False = Inr 0x4D4D"
    by (simp add: jpeg_big_endian_reads)
  have p: "readUint32Value jpeg_big_endian (6 + 6 + 4) (19789 = (0x4D4D::nat)) = Inr 8"
    by (simp add: jpeg_big_endian_reads)
  note t = exif_byte_order_marker [OF jpeg_big_endian_found m, of 8]
  from t have b: "extractExifData jpeg_big_endian ''byteOrder'' = Some (JStr ''Big Endian'')"
    by simp
  from t p have r: "extractExifData jpeg_big_endian
       = [''byteOrder'' \<mapsto> JStr ''Big Endian'', ''Orientation'' \<mapsto> JNum 6]"
    by (simp add: jpeg_big_endian_reads catch_error_def)
  from b r jpeg_big_endian_found jpeg_big_endian_reads show ?thesis by simp
qed

lemma jpeg_unknown_byte_order_found: "findExifMarker jpeg_unknown_byte_order = Inr 6"
  by (simp add: findExifMarker_def jpeg_unknown_byte_order_def findExifMarker_loop.simps
       isApp1Marker_def isExifHeader_def getUint8_def getUint16_def getUint32_def)

lemma jpeg_unknown_byte_order_decode:
  "decodeExifTiff jpeg_unknown_byte_order 12
     = ([''byteOrder'' \<mapsto> JStr ''Little Endian'', ''Orientation'' \<mapsto> JNum 6], None)"
  by (simp add: decodeExifTiff_def
      jpeg_unknown_byte_order_def parseIfd_def parseIfd_loop.simps read_defs entry_defs)

text \<open>
  Claim C9 as stated says that only \<open>MM\<close> and \<open>II\<close> are accepted. The file whose TIFF
  sub-stream starts with \<open>XX\<close> is decoded as little-endian.
\<close>

theorem exif_unknown_marker_accepted_counterexample:
  "findExifMarker jpeg_unknown_byte_order = Inr 6
   \<and> getUint16 jpeg_unknown_byte_order 12 False = Inr 0x5858
   \<and> (0x5858 :: nat) \<noteq> 0x4D4D \<and> (0x5858 :: nat) \<noteq> 0x4949
   \<and> extractExifData jpeg_unknown_byte_order
       = [''byteOrder'' \<mapsto> JStr ''Little Endian'', ''Orientation'' \<mapsto> JNum 6]"
proof -
  have m: "getUint16 jpeg_unknown_byte_order 12 False = Inr 0x5858"
    by (simp add: jpeg_unknown_byte_order_def getUint16_def)
  have r: "extractExifData jpeg_unknown_byte_order
       = [''byteOrder'' \<mapsto> JStr ''Little Endian'', ''Orientation'' \<mapsto> JNum 6]"
    by (simp add: extractExifData_def extractExifData_try_def jpeg_unknown_byte_order_found
        jpeg_unknown_byte_order_decode catch_error_def)
  from m r jpeg_unknown_byte_order_found show ?thesis by simp
qed

section \<open>The XMP packet\<close>

text \<open>
  The text view is the first 65536 bytes, one character per byte. \<^verbatim>\<open>indexOf\<close> finds a
  string exactly when it occurs, and then returns the least position at which it
  occurs.
\<close>

lemma convertBufferToString_loop_eq:
  "searchLength \<le> length buf \<Longrightarrow>
   convertBufferToString_loop buf searchLength i fileString
     = fileString @ map (\<lambda>b. fromCharCode (unat b)) (take (searchLength - i) (drop i buf))"
proof (induction buf searchLength i fileString rule: convertBufferToString_loop.induct)
  case (1 buf searchLength i fileString)
  show ?case
  proof (cases "i < searchLength")
    case False
    then show ?thesis by (subst convertBufferToString_loop.simps) simp
  next
    case True
    with "1.prems" have l: "i < length buf" by simp
    from True have n: "searchLength - i = Suc (searchLength - Suc i)" by simp
    have d: "drop i buf = buf ! i # drop (Suc i) buf"
      using l by (simp add: Cons_nth_drop_Suc)
    from "1.IH" [OF True "1.prems"] True show ?thesis
      by (subst convertBufferToString_loop.simps) (simp add: n d)
  qed
qed

lemma convertBufferToString_eq:
  "convertBufferToString buf = map (\<lambda>b. fromCharCode (unat b)) (take 65536 buf)"
  by (simp add: convertBufferToString_def convertBufferToString_loop_eq min_def)

lemma indexOf_from_range: "indexOf_from s t i = - 1 \<or> int i \<le> indexOf_from s t i"
  by (induction s arbitrary: i) (auto, force)

lemma indexOf_from_found: "(indexOf_from s t i \<noteq> - 1) = sublist t s"
proof (induction s arbitrary: i)
  case Nil
  show ?case by simp
next
  case (Cons c s)
  show ?case by (simp add: sublist_Cons_right Cons.IH)
qed

lemma indexOf_found: "(indexOf s t \<noteq> - 1) = sublist t s"
  by (simp add: indexOf_def indexOf_from_found)

lemma indexOf_from_least:
  "sublist t s \<Longrightarrow>
   \<exists>k. indexOf_from s t i = int (i + k) \<and> prefix t (drop k s) \<and> (\<forall>j<k. \<not> prefix t (drop j s))"
proof (induction s arbitrary: i)
  case Nil
  then show ?case by simp
next
  case (Cons c s)
  show ?case
  proof (cases "prefix t (c # s)")
    case True
    then show ?thesis by (intro exI [of _ 0]) simp
  next
    case False
    with Cons.prems have "sublist t s" by (simp add: sublist_Cons_right)
    from Cons.IH [OF this, of "Suc i"] obtain k where
      k: "indexOf_from s t (Suc i) = int (Suc i + k)" "prefix t (drop k s)"
         "\<forall>j<k. \<not> prefix t (drop j s)"
      by blast
    have "\<forall>j<Suc k. \<not> prefix t (drop j (c # s))"
    proof (intro allI impI)
      fix j assume "j < Suc k"
      then show "\<not> prefix t (drop j (c # s))"
        using False k(3) by (cases j) simp_all
    qed
    with False k(1,2) show ?thesis by (intro exI [of _ "Suc k"]) simp
  qed
qed

lemma indexOf_least:
  "sublist t s \<Longrightarrow>
   \<exists>k. indexOf s t = int k \<and> prefix t (drop k s) \<and> (\<forall>j<k. \<not> prefix t (drop j s))"
  using indexOf_from_least [of t s 0] by (simp add: indexOf_def)

lemma substring_prefix: "substring s 0 500 = take 500 s"
  by (simp add: substring_def Let_def min_def max_def)

lemma substring_take_drop:
  "0 \<le> a \<Longrightarrow> a \<le> b \<Longrightarrow> substring s a b = take (nat (b - a)) (drop (nat a) s)"
  by (auto simp: substring_def Let_def min_def max_def)

lemma extractXmpMetadata_keys:
  "key \<noteq> ''title'' \<Longrightarrow> key \<noteq> ''creator'' \<Longrightarrow>
   extractXmpMetadata titleRegex creatorRegex xmpContent key = None"
  by (simp add: extractXmpMetadata_def Let_def split: option.splits)

lemmas char_eval = fromCharCode_def char_of_def bit_iff_odd

lemma xmp_reversed_text:
  "convertBufferToString xmp_reversed = ''<?xpacket end=<?xpacket begin=''"
  by (simp add: convertBufferToString_eq xmp_reversed_def char_eval)

lemma xmp_reversed_positions:
  "indexOf ''<?xpacket end=<?xpacket begin='' ''<?xpacket begin='' = 14"
  "indexOf ''<?xpacket end=<?xpacket begin='' ''<?xpacket end='' = 0"
  by (simp_all add: indexOf_def)

lemma xmp_packet_text:
  "convertBufferToString xmp_packet = ''<?xpacket begin=X?><x/><?xpacket end=w?>''"
  by (simp add: convertBufferToString_eq xmp_packet_def char_eval)

lemma xmp_packet_positions:
  "indexOf ''<?xpacket begin=X?><x/><?xpacket end=w?>'' ''<?xpacket begin='' = 0"
  "indexOf ''<?xpacket begin=X?><x/><?xpacket end=w?>'' ''<?xpacket end='' = 23"
  by (simp_all add: indexOf_def)

lemma no_packet_text:
  "indexOf (convertBufferToString jpeg_without_app1) ''<?xpacket begin='' = - 1"
  by (simp add: convertBufferToString_eq jpeg_without_app1_def char_eval indexOf_def)

text \<open>
  Claim C8, as amended. The detected flag is true exactly when the text view of the
  first 65536 bytes contains both \<^verbatim>\<open><?xpacket begin=\<close> and \<^verbatim>\<open><?xpacket end=\<close>, in
  whichever order. When it is true, the raw excerpt is the first 500 characters of
  \<^verbatim>\<open>substring(start, end + 20)\<close>, where \<open>start\<close> and \<open>end\<close> are the first positions of the
  two delimiters, followed by \<^verbatim>\<open>...\<close>, and no note is stored. When it is false, the
  record is the flag and the fixed note, without an excerpt.
\<close>

theorem xmp_packet_detection:
  "(let s = convertBufferToString buf;
        found = (sublist ''<?xpacket begin='' s \<and> sublist ''<?xpacket end='' s);
        xmpData = extractXmpData titleRegex creatorRegex buf
    in s = map (\<lambda>b. fromCharCode (unat b)) (take 65536 buf)
       \<and> xmpData ''detected'' = Some (JBool found)
       \<and> (found \<longrightarrow>
            xmpData ''rawXMP''
              = Some (JStr (take 500 (substring s (indexOf s ''<?xpacket begin='')
                                        (indexOf s ''<?xpacket end='' + 20)) @ ''...''))
            \<and> xmpData ''note'' = None)
       \<and> (\<not> found \<longrightarrow>
            xmpData = [''detected'' \<mapsto> JBool False,
                       ''note'' \<mapsto> JStr ''No XMP packet found in image'']
            \<and> xmpData ''rawXMP'' = None))"
proof -
  define s where "s = convertBufferToString buf"
  define found where
    "found = (sublist ''<?xpacket begin='' s \<and> sublist ''<?xpacket end='' s)"
  define xmpData where "xmpData = extractXmpData titleRegex creatorRegex buf"
  have c: "(indexOf s ''<?xpacket begin='' \<noteq> - 1 \<and> indexOf s ''<?xpacket end='' \<noteq> - 1) = found"
    by (simp add: found_def indexOf_found)
  have x: "xmpData = processXmpPacket titleRegex creatorRegex s"
    by (simp add: xmpData_def extractXmpData_def s_def)
  have 1: "s = map (\<lambda>b. fromCharCode (unat b)) (take 65536 buf)"
    by (simp add: s_def convertBufferToString_eq)
  have 2: "xmpData ''detected'' = Some (JBool found)"
    unfolding x processXmpPacket_def Let_def c
    by (simp add: map_add_def extractXmpMetadata_keys)
  have 3: "found \<longrightarrow>
            xmpData ''rawXMP''
              = Some (JStr (take 500 (substring s (indexOf s ''<?xpacket begin='')
                                        (indexOf s ''<?xpacket end='' + 20)) @ ''...''))
            \<and> xmpData ''note'' = None"
    unfolding x processXmpPacket_def Let_def c
    by (simp add: map_add_def extractXmpMetadata_keys substring_prefix)
  have 4: "\<not> found \<longrightarrow>
            xmpData = [''detected'' \<mapsto> JBool False,
                       ''note'' \<mapsto> JStr ''No XMP packet found in image'']
            \<and> xmpData ''rawXMP'' = None"
    unfolding x processXmpPacket_def Let_def c by simp
  from 1 2 3 4 show ?thesis
    unfolding Let_def s_def [symmetric] found_def [symmetric] xmpData_def [symmetric] by blast
qed

theorem xmp_packet_detection_witness:
  "sublist ''<?xpacket begin='' (convertBufferToString xmp_packet)
   \<and> sublist ''<?xpacket end='' (convertBufferToString xmp_packet)
   \<and> extractXmpData (\<lambda>s. None) (\<lambda>s. None) xmp_packet ''detected'' = Some (JBool True)
   \<and> extractXmpData (\<lambda>s. None) (\<lambda>s. None) xmp_packet ''rawXMP''
       = Some (JStr ''<?xpacket begin=X?><x/><?xpacket end=w?>...'')
   \<and> \<not> sublist ''<?xpacket begin='' (convertBufferToString jpeg_without_app1)
   \<and> extractXmpData (\<lambda>s. None) (\<lambda>s. None) jpeg_without_app1
       = [''detected'' \<mapsto> JBool False, ''note'' \<mapsto> JStr ''No XMP packet found in image'']"
proof -
  have b: "sublist ''<?xpacket begin='' (convertBufferToString xmp_packet)"
    and e: "sublist ''<?xpacket end='' (convertBufferToString xmp_packet)"
    unfolding indexOf_found [symmetric] by (simp_all add: xmp_packet_text xmp_packet_positions)
  have n: "\<not> sublist ''<?xpacket begin='' (convertBufferToString jpeg_without_app1)"
    unfolding indexOf_found [symmetric] by (simp add: no_packet_text)
  note p = xmp_packet_detection [of xmp_packet "\<lambda>s. None" "\<lambda>s. None", unfolded Let_def]
  note q = xmp_packet_detection [of jpeg_without_app1 "\<lambda>s. None" "\<lambda>s. None", unfolded Let_def]
  from p b e have d: "extractXmpData (\<lambda>s. None) (\<lambda>s. None) xmp_packet ''detected''
       = Some (JBool True)" by simp
  from p b e have "extractXmpData (\<lambda>s. None) (\<lambda>s. None) xmp_packet ''rawXMP''
       = Some (JStr (take 500 (substring (convertBufferToString xmp_packet)
            (indexOf (convertBufferToString xmp_packet) ''<?xpacket begin='')
            (indexOf (convertBufferToString xmp_packet) ''<?xpacket end='' + 20)) @ ''...''))"
    by blast
  then have r: "extractXmpData (\<lambda>s. None) (\<lambda>s. None) xmp_packet ''rawXMP''
       = Some (JStr ''<?xpacket begin=X?><x/><?xpacket end=w?>...'')"
    by (simp add: xmp_packet_text xmp_packet_positions substring_def Let_def)
  from q n have a: "extractXmpData (\<lambda>s. None) (\<lambda>s. None) jpeg_without_app1
       = [''detected'' \<mapsto> JBool False, ''note'' \<mapsto> JStr ''No XMP packet found in image'']"
    by blast
  from b e d r n a show ?thesis by blast
qed

text \<open>
  Claim C8 as stated requires the begin delimiter to occur before the end delimiter.
  In the buffer \<^verbatim>\<open><?xpacket end=<?xpacket begin=\<close> the only begin delimiter is at 14 and
  the only end delimiter at 0, and the flag is true.
\<close>

theorem xmp_order_not_checked_counterexample:
  "convertBufferToString xmp_reversed = ''<?xpacket end=<?xpacket begin=''
   \<and> indexOf ''<?xpacket end=<?xpacket begin='' ''<?xpacket begin='' = 14
   \<and> indexOf ''<?xpacket end=<?xpacket begin='' ''<?xpacket end='' = 0
   \<and> \<not> (14 :: int) < 0
   \<and> extractXmpData (\<lambda>s. None) (\<lambda>s. None) xmp_reversed ''detected'' = Some (JBool True)
   \<and> extractXmpData (\<lambda>s. None) (\<lambda>s. None) xmp_reversed ''rawXMP''
       = Some (JStr ''<?xpac...'')"
  by (simp add: extractXmpData_def processXmpPacket_def xmp_reversed_text
      xmp_reversed_positions extractXmpMetadata_def substring_def Let_def)

end
